theory Spec2Isabelle
  imports Complex_Main "HOL-Library.AList"
begin

section \<open>Python values\<close>

text \<open>
  The event log stores JSON text; \<^verbatim>\<open>json.loads\<close> turns it into Python values that the
  record builder inspects dynamically (\<^verbatim>\<open>isinstance\<close>, \<^verbatim>\<open>.get\<close>, truthiness, \<^verbatim>\<open>or\<close>).
  The model keeps that dynamic universe as one datatype.

  A Python \<^verbatim>\<open>str\<close> is a \<open>string\<close> holding the UTF-8 bytes of the text: the source never
  takes the length of a string or indexes one, it compares, trims, lower-cases and searches
  for ASCII keywords, and UTF-8 keeps ASCII bytes out of multi-byte characters.

  A Python \<^verbatim>\<open>float\<close> is a \<open>pyfloat\<close>: the two infinities, NaN, or a finite value held as an
  exact rational. Values beyond the range of a double become an infinity and values below it
  zero, as in IEEE 754; inside the range the rounding to the nearest double is not modelled.
  A dict is an association list with distinct keys in insertion order.
\<close>

datatype pyfloat = Finite rat | PosInf | NegInf | NaN

datatype pyval =
    PNone
  | PBool bool
  | PInt int
  | PFloat pyfloat
  | PStr string
  | PList "pyval list"
  | PDict "(string \<times> pyval) list"

datatype error =
    AttributeError
  | TypeError
  | ValueError
  | OverflowError
  | ProgrammingError

text \<open>\<^verbatim>\<open>bool(x)\<close>: the truth value Python gives to \<^verbatim>\<open>not x\<close>, \<^verbatim>\<open>x or y\<close> and \<^verbatim>\<open>if x\<close>.\<close>

fun truthy :: "pyval \<Rightarrow> bool" where
  "truthy PNone = False"
| "truthy (PBool b) = b"
| "truthy (PInt n) = (n \<noteq> 0)"
| "truthy (PFloat f) = (f \<noteq> Finite 0)"
| "truthy (PStr s) = (s \<noteq> [])"
| "truthy (PList xs) = (xs \<noteq> [])"
| "truthy (PDict kvs) = (kvs \<noteq> [])"

text \<open>\<^verbatim>\<open>a or b\<close> on values.\<close>

definition py_or :: "pyval \<Rightarrow> pyval \<Rightarrow> pyval" where
  "py_or a b = (if truthy a then a else b)"

text \<open>\<^verbatim>\<open>d.get(k)\<close> on a dict: the value, or \<^verbatim>\<open>None\<close> when the key is missing.\<close>

definition dict_get :: "(string \<times> pyval) list \<Rightarrow> string \<Rightarrow> pyval" where
  "dict_get d k = (case map_of d k of None \<Rightarrow> PNone | Some v \<Rightarrow> v)"

text \<open>
  \<^verbatim>\<open>x.get(k)\<close> on an arbitrary value: only a dict has the method; on a str, list, number
  or bool the attribute lookup raises \<^verbatim>\<open>AttributeError\<close>. (\<^verbatim>\<open>None\<close> never reaches a
  \<^verbatim>\<open>.get\<close> in the source, every receiver is written \<^verbatim>\<open>x or {}\<close>; it would raise too.)
\<close>

definition py_get :: "pyval \<Rightarrow> string \<Rightarrow> error + pyval" where
  "py_get x k = (case x of PDict d \<Rightarrow> Inr (dict_get d k) | _ \<Rightarrow> Inl AttributeError)"

text \<open>Sequencing of computations that may raise.\<close>

definition bind :: "error + 'a \<Rightarrow> ('a \<Rightarrow> error + 'b) \<Rightarrow> error + 'b" where
  "bind m f = (case m of Inl e \<Rightarrow> Inl e | Inr x \<Rightarrow> f x)"

section \<open>Strings\<close>

definition ascii_ws :: "char \<Rightarrow> bool" where
  "ascii_ws c \<longleftrightarrow> c \<in> set [CHR 0x09, CHR 0x0A, CHR 0x0B, CHR 0x0C, CHR 0x0D,
                             CHR 0x1C, CHR 0x1D, CHR 0x1E, CHR 0x1F, CHR '' '']"

text \<open>
  The characters \<^verbatim>\<open>str.strip()\<close> removes, as UTF-8 byte sequences: the ASCII ones above and
  U+0085, U+00A0, U+1680, U+2000 to U+200A, U+2028, U+2029, U+202F, U+205F, U+3000.
\<close>

definition unicode_ws :: "string list" where
  "unicode_ws =
     [[CHR 0xC2, CHR 0x85], [CHR 0xC2, CHR 0xA0], [CHR 0xE1, CHR 0x9A, CHR 0x80],
      [CHR 0xE2, CHR 0x80, CHR 0x80], [CHR 0xE2, CHR 0x80, CHR 0x81],
      [CHR 0xE2, CHR 0x80, CHR 0x82], [CHR 0xE2, CHR 0x80, CHR 0x83],
      [CHR 0xE2, CHR 0x80, CHR 0x84], [CHR 0xE2, CHR 0x80, CHR 0x85],
      [CHR 0xE2, CHR 0x80, CHR 0x86], [CHR 0xE2, CHR 0x80, CHR 0x87],
      [CHR 0xE2, CHR 0x80, CHR 0x88], [CHR 0xE2, CHR 0x80, CHR 0x89],
      [CHR 0xE2, CHR 0x80, CHR 0x8A], [CHR 0xE2, CHR 0x80, CHR 0xA8],
      [CHR 0xE2, CHR 0x80, CHR 0xA9], [CHR 0xE2, CHR 0x80, CHR 0xAF],
      [CHR 0xE2, CHR 0x81, CHR 0x9F], [CHR 0xE3, CHR 0x80, CHR 0x80]]"

text \<open>
  The length of the whitespace character a string starts with, 0 when it starts with none;
  \<open>tbl\<close> lists the multi-byte ones.
\<close>

definition ws_prefix :: "string list \<Rightarrow> string \<Rightarrow> nat" where
  "ws_prefix tbl s =
     (case s of
        [] \<Rightarrow> 0
      | c # _ \<Rightarrow>
          if ascii_ws c then 1
          else (case filter (\<lambda>w. take (length w) s = w) tbl of
                  [] \<Rightarrow> 0
                | w # _ \<Rightarrow> length w))"

fun lstrip_tbl :: "string list \<Rightarrow> string \<Rightarrow> string" where
  "lstrip_tbl tbl [] = []"
| "lstrip_tbl tbl (c # cs) =
     (if ws_prefix tbl (c # cs) = 0 then c # cs
      else lstrip_tbl tbl (drop (ws_prefix tbl (c # cs) - 1) cs))"

text \<open>\<^verbatim>\<open>s.strip()\<close>. From the right the same characters are matched on the reversed text.\<close>

definition lstrip :: "string \<Rightarrow> string" where
  "lstrip s = lstrip_tbl unicode_ws s"

definition rstrip :: "string \<Rightarrow> string" where
  "rstrip s = rev (lstrip_tbl (map rev unicode_ws) (rev s))"

definition strip :: "string \<Rightarrow> string" where
  "strip s = rstrip (lstrip s)"

text \<open>\<^verbatim>\<open>s.strip('"')\<close>: the double quotes at both ends.\<close>

definition strip_quotes :: "string \<Rightarrow> string" where
  "strip_quotes s =
     rev (dropWhile (\<lambda>c. c = CHR 0x22) (rev (dropWhile (\<lambda>c. c = CHR 0x22) s)))"

text \<open>
  \<^verbatim>\<open>s.lower()\<close> on the ASCII letters. The source lower-cases only to compare with ASCII
  keywords and to search for them; beyond ASCII, lower-casing yields non-ASCII characters
  again, except for U+212A (to \<^verbatim>\<open>k\<close>, a letter no keyword has) and U+0130 (to \<^verbatim>\<open>i\<close>
  followed by a combining mark, which no keyword has after an \<^verbatim>\<open>i\<close>), so the byte-wise
  version decides every comparison and search of the source as Python does.
\<close>

definition lower_char :: "char \<Rightarrow> char" where
  "lower_char c =
     (if (65::nat) \<le> of_char c \<and> of_char c \<le> (90::nat) then char_of (of_char c + (32::nat)) else c)"

definition lower :: "string \<Rightarrow> string" where
  "lower s = map lower_char s"

text \<open>\<^verbatim>\<open>sub in s\<close> on strings.\<close>

fun contains :: "string \<Rightarrow> string \<Rightarrow> bool" where
  "contains sub [] = (sub = [])"
| "contains sub (c # cs) = (take (length sub) (c # cs) = sub \<or> contains sub cs)"

text \<open>\<^verbatim>\<open>s.replace(old, new)\<close> for a one-character \<open>old\<close>.\<close>

definition replace_char :: "char \<Rightarrow> string \<Rightarrow> string \<Rightarrow> string" where
  "replace_char old new s = concat (map (\<lambda>c. if c = old then new else [c]) s)"

text \<open>
  The characters of a string, as \<^verbatim>\<open>for x in s\<close> yields them: a byte that starts a
  character, with the continuation bytes (\<open>0x80\<close> to \<open>0xBF\<close>) after it.
\<close>

definition is_cont :: "char \<Rightarrow> bool" where
  "is_cont c \<longleftrightarrow> (128::nat) \<le> of_char c \<and> of_char c < (192::nat)"

function utf8_chars :: "string \<Rightarrow> string list" where
  "utf8_chars [] = []"
| "utf8_chars (c # cs) = (c # takeWhile is_cont cs) # utf8_chars (dropWhile is_cont cs)"
  by pat_completeness auto
termination
  by (relation "measure length") (auto simp: length_dropWhile_le less_Suc_eq_le)

section \<open>\<^verbatim>\<open>json.loads\<close>\<close>

text \<open>
  The decoder of the standard library (\<^verbatim>\<open>json.decoder\<close>, \<^verbatim>\<open>json.scanner\<close>) with its default
  settings, written as the recursive-descent scanner it is. Every \<^verbatim>\<open>JSONDecodeError\<close> is the
  result \<open>None\<close>; the interpreter's recursion limit on deeply nested documents is not modelled.
\<close>

definition json_ws :: "char \<Rightarrow> bool" where
  "json_ws c \<longleftrightarrow> c = CHR '' '' \<or> c = CHR 0x09 \<or> c = CHR 0x0A \<or> c = CHR 0x0D"

definition skip_ws :: "string \<Rightarrow> string" where
  "skip_ws = dropWhile json_ws"

definition is_digit :: "char \<Rightarrow> bool" where
  "is_digit c \<longleftrightarrow> (48::nat) \<le> of_char c \<and> of_char c \<le> (57::nat)"

definition digit_val :: "char \<Rightarrow> int" where
  "digit_val c = of_char c - 48"

definition digits_val :: "string \<Rightarrow> int" where
  "digits_val ds = foldl (\<lambda>a c. 10 * a + digit_val c) 0 ds"

definition hexval :: "char \<Rightarrow> nat option" where
  "hexval c =
     (let n = (of_char c :: nat) in
      if 48 \<le> n \<and> n \<le> 57 then Some (n - 48)
      else if 65 \<le> n \<and> n \<le> 70 then Some (n - 55)
      else if 97 \<le> n \<and> n \<le> 102 then Some (n - 87)
      else None)"

text \<open>The four hexadecimal digits of a \<^verbatim>\<open>\uXXXX\<close> escape.\<close>

definition decode_uXXXX :: "string \<Rightarrow> nat option" where
  "decode_uXXXX es =
     (case es of
        a # b # c # d # _ \<Rightarrow>
          (case (hexval a, hexval b, hexval c, hexval d) of
             (Some w, Some x, Some y, Some z) \<Rightarrow> Some (((w * 16 + x) * 16 + y) * 16 + z)
           | _ \<Rightarrow> None)
      | _ \<Rightarrow> None)"

text \<open>\<^verbatim>\<open>chr(n)\<close> as UTF-8 bytes.\<close>

definition utf8 :: "nat \<Rightarrow> string" where
  "utf8 n =
     (if n < 0x80 then [char_of n]
      else if n < 0x800 then [char_of (0xC0 + n div 64), char_of (0x80 + n mod 64)]
      else if n < 0x10000 then
        [char_of (0xE0 + n div 4096), char_of (0x80 + n div 64 mod 64), char_of (0x80 + n mod 64)]
      else
        [char_of (0xF0 + n div 262144), char_of (0x80 + n div 4096 mod 64),
         char_of (0x80 + n div 64 mod 64), char_of (0x80 + n mod 64)])"

text \<open>The one-letter escapes of \<^verbatim>\<open>BACKSLASH\<close> in \<^verbatim>\<open>json.decoder\<close>.\<close>

definition backslash :: "char \<Rightarrow> char option" where
  "backslash e =
     (if e = CHR 0x22 then Some (CHR 0x22)
      else if e = CHR 0x5C then Some (CHR 0x5C)
      else if e = CHR ''/'' then Some (CHR ''/'')
      else if e = CHR ''b'' then Some (CHR 0x08)
      else if e = CHR ''f'' then Some (CHR 0x0C)
      else if e = CHR ''n'' then Some (CHR 0x0A)
      else if e = CHR ''r'' then Some (CHR 0x0D)
      else if e = CHR ''t'' then Some (CHR 0x09)
      else None)"

definition emit :: "string \<Rightarrow> (string \<times> string) option \<Rightarrow> (string \<times> string) option" where
  "emit p r = map_option (\<lambda>(s, rest). (p @ s, rest)) r"

text \<open>
  \<^verbatim>\<open>scanstring\<close> (strict mode): the input starts just after the opening quote; the result is
  the decoded string and the text after the closing quote. A high surrogate followed by an
  escaped low surrogate is one character.
\<close>

function scanstring :: "string \<Rightarrow> (string \<times> string) option" where
  "scanstring [] = None"
| "scanstring (c # cs) =
     (if c = CHR 0x22 then Some ([], cs)
      else if c = CHR 0x5C then
        (case cs of
           [] \<Rightarrow> None
         | e # es \<Rightarrow>
             if e = CHR ''u'' then
               (case decode_uXXXX es of
                  None \<Rightarrow> None
                | Some uni \<Rightarrow>
                    (case (if 0xD800 \<le> uni \<and> uni \<le> 0xDBFF
                              \<and> take 2 (drop 4 es) = [CHR 0x5C, CHR ''u'']
                           then decode_uXXXX (drop 6 es) else None) of
                       None \<Rightarrow> emit (utf8 uni) (scanstring (drop 4 es))
                     | Some uni2 \<Rightarrow>
                         if 0xDC00 \<le> uni2 \<and> uni2 \<le> 0xDFFF
                         then emit (utf8 (0x10000 + (((uni - 0xD800) * 1024) + (uni2 - 0xDC00))))
                                (scanstring (drop 10 es))
                         else emit (utf8 uni) (scanstring (drop 4 es))))
             else (case backslash e of
                     None \<Rightarrow> None
                   | Some ch \<Rightarrow> emit [ch] (scanstring es)))
      else if (of_char c :: nat) < 0x20 then None
      else emit [c] (scanstring cs))"
  by pat_completeness auto
termination
  by (relation "measure length") auto

text \<open>
  A float literal: the digits \<open>ds\<close> read as an integer, scaled by \<open>10 ^ e\<close>, with the
  overflow and underflow of a double (round-half-even at the ends of the range).
\<close>

definition float_round :: "rat \<Rightarrow> pyfloat" where
  "float_round v =
     (if \<bar>v\<bar> \<ge> 2 ^ 1024 - 2 ^ 970 then (if v > 0 then PosInf else NegInf)
      else if \<bar>v\<bar> \<le> 1 / 2 ^ 1075 then Finite 0
      else Finite v)"

definition decimal :: "bool \<Rightarrow> int \<Rightarrow> int \<Rightarrow> pyfloat" where
  "decimal neg m e =
     float_round ((if neg then - 1 else 1) *
       (if e \<ge> 0 then of_int (m * 10 ^ nat e) else of_int m / of_int (10 ^ nat (- e))))"

text \<open>
  \<^verbatim>\<open>NUMBER_RE\<close>: \<^verbatim>\<open>(-?(?:0|[1-9][0-9]*))(\.[0-9]+)?([eE][-+]?[0-9]+)?\<close>, one group at a
  time; each function returns what its group matched and the text after it. Without fraction
  and exponent the literal is an \<^verbatim>\<open>int\<close>, otherwise a \<^verbatim>\<open>float\<close>.
\<close>

definition int_part :: "string \<Rightarrow> (string \<times> string) option" where
  "int_part cs =
     (case cs of
        [] \<Rightarrow> None
      | d # r \<Rightarrow>
          if \<not> is_digit d then None
          else if d = CHR ''0'' then Some ([d], r)
          else Some (d # takeWhile is_digit r, dropWhile is_digit r))"

definition frac_part :: "string \<Rightarrow> string \<times> string" where
  "frac_part cs =
     (case cs of
        [] \<Rightarrow> ([], cs)
      | p # r \<Rightarrow>
          if p = CHR ''.'' \<and> takeWhile is_digit r \<noteq> []
          then (takeWhile is_digit r, dropWhile is_digit r)
          else ([], cs))"

definition exp_part :: "string \<Rightarrow> int option \<times> string" where
  "exp_part cs =
     (case cs of
        [] \<Rightarrow> (None, cs)
      | x # r \<Rightarrow>
          if x = CHR ''e'' \<or> x = CHR ''E'' then
            (let (sgn, r1) = (case r of
                                [] \<Rightarrow> (1, r)
                              | s # r2 \<Rightarrow> if s = CHR ''+'' then (1, r2)
                                         else if s = CHR ''-'' then (- 1, r2)
                                         else (1, r))
             in if takeWhile is_digit r1 \<noteq> []
                then (Some (sgn * digits_val (takeWhile is_digit r1)), dropWhile is_digit r1)
                else (None, cs))
          else (None, cs))"

definition match_number :: "string \<Rightarrow> (pyval \<times> string) option" where
  "match_number cs =
     (let (neg, cs1) = (case cs of
                          [] \<Rightarrow> (False, cs)
                        | c # r \<Rightarrow> if c = CHR ''-'' then (True, r) else (False, cs))
      in case int_part cs1 of
           None \<Rightarrow> None
         | Some (ip, rest) \<Rightarrow>
             let (fd, rest2) = frac_part rest;
                 (ex, rest3) = exp_part rest2
             in if fd = [] \<and> ex = None
                then Some (PInt ((if neg then - 1 else 1) * digits_val ip), rest3)
                else Some (PFloat (decimal neg (digits_val (ip @ fd))
                                     ((case ex of None \<Rightarrow> 0 | Some e \<Rightarrow> e) - int (length fd))),
                           rest3))"

text \<open>The values that are neither string, object nor array, in the order of \<^verbatim>\<open>_scan_once\<close>.\<close>

definition scan_atom :: "string \<Rightarrow> (pyval \<times> string) option" where
  "scan_atom cs =
     (if take 4 cs = ''null'' then Some (PNone, drop 4 cs)
      else if take 4 cs = ''true'' then Some (PBool True, drop 4 cs)
      else if take 5 cs = ''false'' then Some (PBool False, drop 5 cs)
      else case match_number cs of
             Some r \<Rightarrow> Some r
           | None \<Rightarrow>
               if take 3 cs = ''NaN'' then Some (PFloat NaN, drop 3 cs)
               else if take 8 cs = ''Infinity'' then Some (PFloat PosInf, drop 8 cs)
               else if take 9 cs = ''-Infinity'' then Some (PFloat NegInf, drop 9 cs)
               else None)"

text \<open>\<^verbatim>\<open>dict(pairs)\<close>: a repeated key keeps its first position and takes the last value.\<close>

definition dict_of :: "(string \<times> pyval) list \<Rightarrow> (string \<times> pyval) list" where
  "dict_of pairs = foldl (\<lambda>d (k, v). AList.update k v d) [] pairs"

lemma length_skip_ws: "length (skip_ws cs) \<le> length cs"
  unfolding skip_ws_def by (rule length_dropWhile_le)

lemma skip_ws_Cons: "skip_ws cs = c # r \<Longrightarrow> length r < length cs"
  using length_skip_ws [of cs] by simp

lemma length_utf8: "length (utf8 n) \<le> (if n < 0x10000 then 3 else 4)"
  by (simp add: utf8_def)

lemma hexval_less: "hexval c = Some n \<Longrightarrow> n < 16"
  by (auto simp: hexval_def Let_def split: if_splits)

lemma decode_uXXXX_bound:
  assumes "decode_uXXXX es = Some n"
  shows "n < 0x10000 \<and> 4 \<le> length es"
proof -
  from assms obtain a b c d r w x y z where
    es: "es = a # b # c # d # r" and
    h: "hexval a = Some w" "hexval b = Some x" "hexval c = Some y" "hexval d = Some z" and
    n: "n = ((w * 16 + x) * 16 + y) * 16 + z"
    by (auto simp: decode_uXXXX_def split: list.splits option.splits)
  from h have "w < 16" "x < 16" "y < 16" "z < 16"
    by (auto dest: hexval_less)
  with n es show ?thesis by simp
qed

text \<open>A string literal is longer than the string it denotes.\<close>

lemma scanstring_shorter:
  "scanstring cs = Some (s, rest) \<Longrightarrow> length s + length rest < length cs"
proof (induction cs arbitrary: s rest rule: scanstring.induct)
  case 1
  then show ?case by simp
next
  case (2 c cs)
  show ?case
  proof (cases "c = CHR 0x22")
    case True
    with "2.prems" show ?thesis by simp
  next
    case quote: False
    show ?thesis
    proof (cases "c = CHR 0x5C")
      case False
      with quote "2.prems" have ctl: "\<not> (of_char c :: nat) < 0x20"
        by (auto split: if_splits)
      with quote False "2.prems" obtain s' where
        s: "scanstring cs = Some (s', rest)" "s = c # s'"
        by (auto simp: emit_def)
      from "2.IH"(5) [OF quote False ctl s(1)] have "length s' + length rest < length cs" .
      with s show ?thesis by simp
    next
      case True
      with quote "2.prems" obtain e es where cs: "cs = e # es"
        by (cases cs) auto
      show ?thesis
      proof (cases "e = CHR ''u''")
        case False
        with quote True cs "2.prems" obtain ch s' where
          s: "backslash e = Some ch" "scanstring es = Some (s', rest)" "s = ch # s'"
          by (auto simp: emit_def split: option.splits)
        from "2.IH"(4) [OF quote True cs False s(1)] s(2)
        have "length s' + length rest < length es" by simp
        with s cs show ?thesis by simp
      next
        case u: True
        with quote True cs "2.prems" obtain uni where uni: "decode_uXXXX es = Some uni"
          by (auto split: option.splits)
        let ?pair = "if 0xD800 \<le> uni \<and> uni \<le> 0xDBFF
                       \<and> take 2 (drop 4 es) = [CHR 0x5C, CHR ''u'']
                     then decode_uXXXX (drop 6 es) else None"
        from decode_uXXXX_bound [OF uni] have b: "uni < 0x10000" "4 \<le> length es" by simp_all
        show ?thesis
        proof (cases ?pair)
          case None
          with quote True cs u uni "2.prems" obtain s' where
            s: "scanstring (drop 4 es) = Some (s', rest)" "s = utf8 uni @ s'"
            by (auto simp: emit_def)
          from "2.IH"(1) [OF quote True cs u uni None] s(1)
          have "length s' + length rest < length (drop 4 es)" by simp
          moreover from length_utf8 [of uni] b have "length (utf8 uni) \<le> 3" by simp
          ultimately show ?thesis using s cs b by simp
        next
          case (Some uni2)
          then have pair: "decode_uXXXX (drop 6 es) = Some uni2"
            by (auto split: if_splits)
          from decode_uXXXX_bound [OF pair] have b2: "10 \<le> length es" by auto
          show ?thesis
          proof (cases "0xDC00 \<le> uni2 \<and> uni2 \<le> 0xDFFF")
            case low: True
            with quote True cs u uni Some "2.prems" obtain s' where
              s: "scanstring (drop 10 es) = Some (s', rest)"
                 "s = utf8 (0x10000 + (((uni - 0xD800) * 1024) + (uni2 - 0xDC00))) @ s'"
              by (auto simp: emit_def)
            from "2.IH"(2) [OF quote True cs u uni Some low] s(1)
            have "length s' + length rest < length (drop 10 es)" by simp
            moreover have "length (utf8 (0x10000 + (((uni - 0xD800) * 1024) + (uni2 - 0xDC00)))) \<le> 4"
              by (simp add: utf8_def)
            ultimately show ?thesis using s cs b2 by simp
          next
            case False
            with quote True cs u uni Some "2.prems" obtain s' where
              s: "scanstring (drop 4 es) = Some (s', rest)" "s = utf8 uni @ s'"
              by (auto simp: emit_def)
            from "2.IH"(3) [OF quote True cs u uni Some False] s(1)
            have "length s' + length rest < length (drop 4 es)" by simp
            moreover from length_utf8 [of uni] b have "length (utf8 uni) \<le> 3" by simp
            ultimately show ?thesis using s cs b by simp
          qed
        qed
      qed
    qed
  qed
qed

text \<open>
  \<^verbatim>\<open>_scan_once\<close>, \<^verbatim>\<open>JSONArray\<close> and \<^verbatim>\<open>JSONObject\<close>. \<open>array_items\<close> is the loop of
  \<^verbatim>\<open>JSONArray\<close>, entered at the first character of a value with the values read so far;
  \<open>object_items\<close> is the loop of \<^verbatim>\<open>JSONObject\<close>, entered just after the opening quote of a
  key with the pairs read so far. The tests \<open>length r < length cs\<close> make the recursion
  well-founded for the definition; \<open>scan_once_shorter\<close> below shows that they always hold.
\<close>

function scan_once :: "string \<Rightarrow> (pyval \<times> string) option"
  and array_items :: "string \<Rightarrow> pyval list \<Rightarrow> (pyval \<times> string) option"
  and object_items :: "string \<Rightarrow> (string \<times> pyval) list \<Rightarrow> (pyval \<times> string) option"
where
  "scan_once [] = None"
| "scan_once (c # cs) =
     (if c = CHR 0x22 then map_option (\<lambda>(s, r). (PStr s, r)) (scanstring cs)
      else if c = CHR ''{'' then
        (case skip_ws cs of
           [] \<Rightarrow> None
         | c1 # r \<Rightarrow>
             if c1 = CHR ''}'' then Some (PDict [], r)
             else if c1 = CHR 0x22 then object_items r []
             else None)
      else if c = CHR ''['' then
        (case skip_ws cs of
           [] \<Rightarrow> None
         | c1 # r \<Rightarrow>
             if c1 = CHR '']'' then Some (PList [], r)
             else array_items (c1 # r) [])
      else scan_atom (c # cs))"
| "array_items cs acc =
     (case scan_once cs of
        None \<Rightarrow> None
      | Some (v, r) \<Rightarrow>
          if length r < length cs then
            (case skip_ws r of
               [] \<Rightarrow> None
             | c1 # r1 \<Rightarrow>
                 if c1 = CHR '']'' then Some (PList (acc @ [v]), r1)
                 else if c1 = CHR '','' then array_items (skip_ws r1) (acc @ [v])
                 else None)
          else None)"
| "object_items cs pairs =
     (case scanstring cs of
        None \<Rightarrow> None
      | Some (key, r) \<Rightarrow>
          (case skip_ws r of
             [] \<Rightarrow> None
           | c1 # r1 \<Rightarrow>
               if c1 = CHR '':'' then
                 (case scan_once (skip_ws r1) of
                    None \<Rightarrow> None
                  | Some (v, r2) \<Rightarrow>
                      if length r2 < length (skip_ws r1) then
                        (case skip_ws r2 of
                           [] \<Rightarrow> None
                         | c2 # r3 \<Rightarrow>
                             if c2 = CHR ''}'' then Some (PDict (dict_of (pairs @ [(key, v)])), r3)
                             else if c2 = CHR '','' then
                               (case skip_ws r3 of
                                  [] \<Rightarrow> None
                                | c3 # r4 \<Rightarrow>
                                    if c3 = CHR 0x22 then object_items r4 (pairs @ [(key, v)])
                                    else None)
                             else None)
                      else None)
               else None))"
  by pat_completeness auto
termination
proof (relation "measure (\<lambda>x. case x of
            Inl cs \<Rightarrow> 2 * length cs
          | Inr (Inl (cs, acc)) \<Rightarrow> 2 * length cs + 1
          | Inr (Inr (cs, pairs)) \<Rightarrow> 2 * length cs + 1)", goal_cases)
  case 1
  show ?case by simp
next
  case (2 c cs c1 r)
  then show ?case by (auto dest: skip_ws_Cons)
next
  case (3 c cs c1 r)
  then show ?case using length_skip_ws [of cs] by auto
next
  case (4 cs acc)
  show ?case by simp
next
  case (5 cs acc x v r c1 r1)
  then show ?case using length_skip_ws [of r1] by (auto dest!: skip_ws_Cons)
next
  case (6 cs pairs x key r c1 r1)
  then show ?case
    using length_skip_ws [of r1] scanstring_shorter [of cs key r] by (auto dest!: skip_ws_Cons)
next
  case (7 cs pairs x key r c1 r1 y v r2 c2 r3 c3 r4)
  then show ?case
    using length_skip_ws [of r1] scanstring_shorter [of cs key r] by (auto dest!: skip_ws_Cons)
qed

text \<open>
  \<^verbatim>\<open>json.loads(s)\<close>: one value between optional whitespace, nothing after it.
\<close>

definition json_loads :: "string \<Rightarrow> pyval option" where
  "json_loads s =
     (case scan_once (skip_ws s) of
        None \<Rightarrow> None
      | Some (v, r) \<Rightarrow> if skip_ws r = [] then Some v else None)"

section \<open>The size of a decoded document\<close>

text \<open>
  \<open>tsize\<close> counts the characters a value needs at least when written as JSON. A decoded
  value is never larger than its text; the recursions over decoded text below
  (\<open>_payload_as_dict\<close>, \<open>_first_reasoning\<close>) terminate for that reason.
\<close>

fun tsize :: "pyval \<Rightarrow> nat" where
  "tsize (PStr s) = Suc (length s)"
| "tsize (PList xs) = Suc (sum_list (map tsize xs))"
| "tsize (PDict kvs) = Suc (sum_list (map (\<lambda>kv. length (fst kv) + Suc (tsize (snd kv))) kvs))"
| "tsize _ = 1"

definition weight :: "(string \<times> pyval) list \<Rightarrow> nat" where
  "weight kvs = sum_list (map (\<lambda>kv. length (fst kv) + Suc (tsize (snd kv))) kvs)"

lemma weight_simps [simp]:
  "weight [] = 0"
  "weight (kv # kvs) = length (fst kv) + Suc (tsize (snd kv)) + weight kvs"
  "weight (xs @ ys) = weight xs + weight ys"
  by (simp_all add: weight_def)

lemma tsize_pos: "0 < tsize v"
  by (cases v) simp_all

lemma weight_update: "weight (AList.update k v d) \<le> weight d + (length k + Suc (tsize v))"
  by (induction d) (auto simp: AList.update.simps)

lemma weight_dict_of_aux:
  "weight (foldl (\<lambda>d (k, v). AList.update k v d) d0 pairs) \<le> weight d0 + weight pairs"
proof (induction pairs arbitrary: d0)
  case Nil
  show ?case by simp
next
  case (Cons p pairs)
  obtain k v where p: "p = (k, v)" by (cases p)
  from Cons.IH [of "AList.update k v d0"] weight_update [of k v d0]
  show ?case by (simp add: p)
qed

lemma weight_dict_of: "weight (dict_of pairs) \<le> weight pairs"
  using weight_dict_of_aux [of "[]" pairs] by (simp add: dict_of_def)

lemma int_part_shorter: "int_part cs = Some (ip, r) \<Longrightarrow> length r < length cs"
  using length_dropWhile_le [of is_digit "tl cs"]
  by (auto simp: int_part_def split: list.splits if_splits)

lemma frac_part_shorter: "frac_part cs = (fd, r) \<Longrightarrow> length r \<le> length cs"
  using length_dropWhile_le [of is_digit "tl cs"]
  by (auto simp: frac_part_def split: list.splits if_splits)

lemma exp_part_shorter: "exp_part cs = (ex, r) \<Longrightarrow> length r \<le> length cs"
proof (cases cs)
  case Nil
  assume "exp_part cs = (ex, r)"
  with Nil show ?thesis by (simp add: exp_part_def)
next
  case (Cons x t)
  assume e: "exp_part cs = (ex, r)"
  have 1: "length (dropWhile is_digit t) \<le> length t" by (rule length_dropWhile_le)
  have 2: "length (dropWhile is_digit (tl t)) \<le> length t"
    using length_dropWhile_le [of is_digit "tl t"] by simp
  from e Cons 1 2 show ?thesis
    by (auto simp: exp_part_def Let_def split: list.splits if_splits)
qed

lemma match_number_shorter:
  assumes "match_number cs = Some (v, r)"
  shows "length r < length cs \<and> tsize v = 1"
proof -
  obtain neg cs1 where n: "(case cs of [] \<Rightarrow> (False, cs)
        | c # r \<Rightarrow> if c = CHR ''-'' then (True, r) else (False, cs)) = (neg, cs1)"
    by fastforce
  then have l1: "length cs1 \<le> length cs"
    by (auto split: list.splits if_splits)
  from assms n obtain ip rest where ip: "int_part cs1 = Some (ip, rest)"
    by (auto simp: match_number_def split: option.splits)
  obtain fd rest2 where fd: "frac_part rest = (fd, rest2)" by fastforce
  obtain ex rest3 where ex: "exp_part rest2 = (ex, rest3)" by fastforce
  from assms n ip fd ex have "r = rest3" "tsize v = 1"
    by (auto simp: match_number_def split: if_splits)
  with l1 int_part_shorter [OF ip] frac_part_shorter [OF fd] exp_part_shorter [OF ex]
  show ?thesis by simp
qed

lemma drop_literal:
  assumes "take n cs = w" "length w = n" "0 < n"
  shows "Suc (length cs - n) \<le> length cs"
proof -
  from assms(1,2) have "min n (length cs) = n"
    by (metis length_take min.commute)
  with assms(3) show ?thesis by simp
qed

lemma scan_atom_shorter:
  assumes "scan_atom cs = Some (v, r)"
  shows "tsize v + length r \<le> length cs"
  using assms match_number_shorter [of cs v r]
    drop_literal [of 4 cs "''null''"] drop_literal [of 4 cs "''true''"]
    drop_literal [of 5 cs "''false''"] drop_literal [of 3 cs "''NaN''"]
    drop_literal [of 8 cs "''Infinity''"] drop_literal [of 9 cs "''-Infinity''"]
  by (auto simp: scan_atom_def split: if_splits option.splits)

lemma scan_size:
  "scan_once cs = Some (v, r) \<Longrightarrow> tsize v + length r \<le> length cs"
  "array_items cs acc = Some (v, r) \<Longrightarrow>
     \<exists>xs. v = PList (acc @ xs) \<and> sum_list (map tsize xs) + length r < length cs"
  "object_items cs pairs = Some (v, r) \<Longrightarrow>
     \<exists>ps. v = PDict (dict_of (pairs @ ps)) \<and> weight ps + length r < length cs"
proof (induction cs and cs acc and cs pairs arbitrary: v r and v r and v r
    rule: scan_once_array_items_object_items.induct)
  case 1
  then show ?case by simp
next
  case (2 c cs)
  show ?case
  proof (cases "c = CHR 0x22")
    case True
    with "2.prems" obtain s where "scanstring cs = Some (s, r)" "v = PStr s"
      by auto
    with scanstring_shorter [of cs s r] show ?thesis by simp
  next
    case q: False
    show ?thesis
    proof (cases "c = CHR ''{''")
      case True
      with q "2.prems" obtain c1 r1 where sk: "skip_ws cs = c1 # r1"
        by (auto split: list.splits)
      from skip_ws_Cons [OF sk] have l: "length r1 < length cs" .
      show ?thesis
      proof (cases "c1 = CHR ''}''")
        case True
        with q \<open>c = CHR ''{''\<close> sk "2.prems" l show ?thesis by auto
      next
        case False
        with q \<open>c = CHR ''{''\<close> sk "2.prems" have c1: "c1 = CHR 0x22" and
          o: "object_items r1 [] = Some (v, r)"
          by (auto split: if_splits)
        from "2.IH"(1) [OF q \<open>c = CHR ''{''\<close> sk False c1 o]
        obtain ps where "v = PDict (dict_of ps)" "weight ps + length r < length r1"
          by auto
        with weight_dict_of [of ps] l show ?thesis
          by (simp add: weight_def)
      qed
    next
      case b: False
      show ?thesis
      proof (cases "c = CHR ''[''")
        case True
        with q b "2.prems" obtain c1 r1 where sk: "skip_ws cs = c1 # r1"
          by (auto split: list.splits)
        from length_skip_ws [of cs] sk have l: "Suc (length r1) \<le> length cs" by simp
        show ?thesis
        proof (cases "c1 = CHR '']''")
          case True
          with q b \<open>c = CHR ''[''\<close> sk "2.prems" l show ?thesis by auto
        next
          case False
          with q b \<open>c = CHR ''[''\<close> sk "2.prems" have
            a: "array_items (c1 # r1) [] = Some (v, r)"
            by auto
          from "2.IH"(2) [OF q b \<open>c = CHR ''[''\<close> sk False a]
          obtain xs where "v = PList xs" "sum_list (map tsize xs) + length r < length (c1 # r1)"
            by auto
          with l show ?thesis by simp
        qed
      next
        case False
        with q b "2.prems" have "scan_atom (c # cs) = Some (v, r)" by simp
        from scan_atom_shorter [OF this] show ?thesis .
      qed
    qed
  qed
next
  case (3 cs acc)
  from "3.prems" obtain x r0 where so: "scan_once cs = Some (x, r0)"
    by (auto split: option.splits)
  with "3.prems" have g: "length r0 < length cs"
    by (auto split: if_splits)
  from so g "3.prems" obtain c1 r1 where sk: "skip_ws r0 = c1 # r1"
    by (auto split: list.splits)
  from "3.IH"(1) [OF so] have sz: "tsize x + length r0 \<le> length cs" .
  from skip_ws_Cons [OF sk] have l: "length r1 < length r0" .
  show ?case
  proof (cases "c1 = CHR '']''")
    case True
    with so g sk "3.prems" have "v = PList (acc @ [x])" "r = r1" by auto
    with sz l show ?thesis by auto
  next
    case False
    with so g sk "3.prems" have c: "c1 = CHR '',''" and
      a: "array_items (skip_ws r1) (acc @ [x]) = Some (v, r)"
      by (auto split: if_splits)
    from "3.IH"(2) [OF so refl g sk False c a]
    obtain xs where "v = PList ((acc @ [x]) @ xs)"
      "sum_list (map tsize xs) + length r < length (skip_ws r1)" by auto
    with sz l length_skip_ws [of r1] have
      "v = PList (acc @ (x # xs)) \<and> sum_list (map tsize (x # xs)) + length r < length cs"
      by simp
    then show ?thesis by blast
  qed
next
  case (4 cs pairs)
  from "4.prems" obtain key r0 where ss: "scanstring cs = Some (key, r0)"
    by (auto split: option.splits)
  from scanstring_shorter [OF ss] have lk: "length key + length r0 < length cs" .
  from ss "4.prems" obtain c1 r1 where sk: "skip_ws r0 = c1 # r1"
    by (auto split: list.splits)
  from skip_ws_Cons [OF sk] have l1: "length r1 < length r0" .
  from ss sk "4.prems" have c1: "c1 = CHR '':''"
    by (auto split: if_splits)
  from ss sk c1 "4.prems" obtain x r2 where so: "scan_once (skip_ws r1) = Some (x, r2)"
    by (auto split: option.splits)
  from ss sk c1 so "4.prems" have g: "length r2 < length (skip_ws r1)"
    by (auto split: if_splits)
  from "4.IH"(1) [OF ss refl sk c1 so] have sz: "tsize x + length r2 \<le> length (skip_ws r1)" .
  from ss sk c1 so g "4.prems" obtain c2 r3 where sk2: "skip_ws r2 = c2 # r3"
    by (auto split: list.splits)
  from skip_ws_Cons [OF sk2] have l3: "length r3 < length r2" .
  show ?case
  proof (cases "c2 = CHR ''}''")
    case True
    with ss sk c1 so g sk2 "4.prems" have "v = PDict (dict_of (pairs @ [(key, x)]))" "r = r3"
      by auto
    moreover from lk l1 sz l3 length_skip_ws [of r1]
    have "weight [(key, x)] + length r3 < length cs" by simp
    ultimately show ?thesis by blast
  next
    case False
    with ss sk c1 so g sk2 "4.prems" have c2: "c2 = CHR '',''"
      by (auto split: if_splits)
    from ss sk c1 so g sk2 False c2 "4.prems" obtain c3 r4 where sk3: "skip_ws r3 = c3 # r4"
      by (auto split: list.splits)
    from skip_ws_Cons [OF sk3] have l4: "length r4 < length r3" .
    from ss sk c1 so g sk2 False c2 sk3 "4.prems" have c3: "c3 = CHR 0x22" and
      o: "object_items r4 (pairs @ [(key, x)]) = Some (v, r)"
      by (auto split: if_splits)
    from "4.IH"(2) [OF ss refl sk c1 so refl g sk2 False c2 sk3 c3 o]
    obtain ps where "v = PDict (dict_of ((pairs @ [(key, x)]) @ ps))"
      "weight ps + length r < length r4" by auto
    with lk l1 sz l3 l4 length_skip_ws [of r1] have
      "v = PDict (dict_of (pairs @ ((key, x) # ps))) \<and> weight ((key, x) # ps) + length r < length cs"
      by simp
    then show ?thesis by blast
  qed
qed

text \<open>What is left after a value is shorter than the text the value was read from.\<close>

lemma scan_once_shorter: "scan_once cs = Some (v, r) \<Longrightarrow> length r < length cs"
  using scan_size(1) [of cs v r] tsize_pos [of v] by simp

lemma json_loads_size: "json_loads s = Some v \<Longrightarrow> tsize v \<le> length s"
proof -
  assume "json_loads s = Some v"
  then obtain r where "scan_once (skip_ws s) = Some (v, r)"
    by (auto simp: json_loads_def split: option.splits if_splits)
  from scan_size(1) [OF this] length_skip_ws [of s] show ?thesis by simp
qed

section \<open>Conversions to numbers\<close>

text \<open>
  A run of decimal digits in which single underscores may separate digits, as \<^verbatim>\<open>int()\<close> and
  \<^verbatim>\<open>float()\<close> accept it. (Python also accepts the decimal digits of other scripts; the model
  reads the ASCII digits only. The limit that recent interpreters put on the number of digits
  of an \<^verbatim>\<open>int\<close> literal is not modelled.)
\<close>

fun digits_us :: "string \<Rightarrow> bool" where
  "digits_us [] = False"
| "digits_us [c] = is_digit c"
| "digits_us (c # d # r) =
     (is_digit c \<and> (if d = CHR ''_'' then digits_us r else digits_us (d # r)))"

definition us_val :: "string \<Rightarrow> int" where
  "us_val ds = digits_val (filter (\<lambda>c. c \<noteq> CHR ''_'') ds)"

definition split_sign :: "string \<Rightarrow> bool \<times> string" where
  "split_sign s =
     (case s of
        [] \<Rightarrow> (False, s)
      | c # r \<Rightarrow> if c = CHR ''-'' then (True, r) else if c = CHR ''+'' then (False, r) else (False, s))"

text \<open>\<^verbatim>\<open>int(s)\<close> for a string: \<open>None\<close> stands for \<^verbatim>\<open>ValueError\<close>.\<close>

definition int_of_str :: "string \<Rightarrow> int option" where
  "int_of_str s =
     (let (neg, ds) = split_sign (strip s)
      in if digits_us ds then Some ((if neg then - 1 else 1) * us_val ds) else None)"

text \<open>
  \<^verbatim>\<open>float(s)\<close> for a string: an optional sign, then \<^verbatim>\<open>inf\<close>, \<^verbatim>\<open>infinity\<close> or \<^verbatim>\<open>nan\<close> in
  any case, or digits with an optional point and an optional exponent, at least one digit
  before or after the point. \<open>None\<close> stands for \<^verbatim>\<open>ValueError\<close>.
\<close>

definition is_digit_us :: "char \<Rightarrow> bool" where
  "is_digit_us c \<longleftrightarrow> is_digit c \<or> c = CHR ''_''"

definition float_of_str :: "string \<Rightarrow> pyfloat option" where
  "float_of_str s =
     (let (neg, body) = split_sign (strip s)
      in if lower body = ''inf'' \<or> lower body = ''infinity'' then Some (if neg then NegInf else PosInf)
         else if lower body = ''nan'' then Some NaN
         else
           let ip = takeWhile is_digit_us body;
               r1 = dropWhile is_digit_us body;
               has_point = (r1 \<noteq> [] \<and> hd r1 = CHR ''.'');
               fp = (if has_point then takeWhile is_digit_us (tl r1) else []);
               r2 = (if has_point then dropWhile is_digit_us (tl r1) else r1);
               has_exp = (r2 \<noteq> [] \<and> (hd r2 = CHR ''e'' \<or> hd r2 = CHR ''E''));
               (eneg, ep) = (if has_exp then split_sign (tl r2) else (False, []))
           in if (ip = [] \<or> digits_us ip) \<and> (fp = [] \<or> digits_us fp) \<and> (ip \<noteq> [] \<or> fp \<noteq> [])
                 \<and> (if has_exp then digits_us ep else r2 = [])
              then Some (decimal neg (us_val (ip @ fp))
                           ((if eneg then - 1 else 1) * us_val ep - int (length (filter is_digit fp))))
              else None)"

text \<open>\<^verbatim>\<open>int(x)\<close> for a float: truncation towards zero; infinities and NaN raise.\<close>

definition int_of_float :: "pyfloat \<Rightarrow> error + int" where
  "int_of_float f =
     (case f of
        Finite q \<Rightarrow> Inr (if q \<ge> 0 then \<lfloor>q\<rfloor> else \<lceil>q\<rceil>)
      | PosInf \<Rightarrow> Inl OverflowError
      | NegInf \<Rightarrow> Inl OverflowError
      | NaN \<Rightarrow> Inl ValueError)"

text \<open>\<^verbatim>\<open>float(n)\<close> for an int: an int beyond the range of a double raises.\<close>

definition float_of_int :: "int \<Rightarrow> error + pyfloat" where
  "float_of_int n =
     (if \<bar>n\<bar> \<ge> 2 ^ 1024 - 2 ^ 970 then Inl OverflowError else Inr (Finite (of_int n)))"

datatype target_type = T_int | T_float

text \<open>
  \<^verbatim>\<open>safe_number_convert(value, target_type)\<close> (main.py, lines 62 to 75). \<^verbatim>\<open>bool\<close> is a subclass
  of \<^verbatim>\<open>int\<close>, so a bool takes the numeric branch. The conversion of a number is outside
  the \<^verbatim>\<open>try\<close>: what it raises leaves the function.
\<close>

definition safe_number_convert :: "pyval \<Rightarrow> target_type \<Rightarrow> error + pyval" where
  "safe_number_convert v target =
     (case v of
        PNone \<Rightarrow> Inr PNone
      | PBool b \<Rightarrow>
          (case target of
             T_int \<Rightarrow> Inr (PInt (if b then 1 else 0))
           | T_float \<Rightarrow> Inr (PFloat (Finite (if b then 1 else 0))))
      | PInt n \<Rightarrow>
          (case target of
             T_int \<Rightarrow> Inr (PInt n)
           | T_float \<Rightarrow> bind (float_of_int n) (\<lambda>f. Inr (PFloat f)))
      | PFloat f \<Rightarrow>
          (case target of
             T_int \<Rightarrow> bind (int_of_float f) (\<lambda>n. Inr (PInt n))
           | T_float \<Rightarrow> Inr (PFloat f))
      | PStr s \<Rightarrow>
          (if strip s = [] then Inr PNone
           else case target of
                  T_int \<Rightarrow> Inr (case int_of_str (strip s) of None \<Rightarrow> PNone | Some n \<Rightarrow> PInt n)
                | T_float \<Rightarrow> Inr (case float_of_str (strip s) of None \<Rightarrow> PNone | Some f \<Rightarrow> PFloat f))
      | _ \<Rightarrow> Inr PNone)"

section \<open>Timestamps\<close>

text \<open>
  \<^verbatim>\<open>datetime.fromisoformat\<close> with the grammar the library documents up to Python 3.10,
  \<^verbatim>\<open>YYYY-MM-DD[*HH[:MM[:SS[.fff[fff]]]][+HH:MM[:SS[.ffffff]]]]\<close>, which is the one the source
  prepares its input for (it rewrites a trailing \<^verbatim>\<open>Z\<close> that later versions accept as it is).
  The result is the wall-clock time in microseconds since the start of year 1 and, for an
  aware value, the offset from UTC in microseconds. \<open>None\<close> stands for \<^verbatim>\<open>ValueError\<close>.
\<close>

definition is_leap :: "int \<Rightarrow> bool" where
  "is_leap y \<longleftrightarrow> y mod 4 = 0 \<and> (y mod 100 \<noteq> 0 \<or> y mod 400 = 0)"

definition days_in_month :: "int \<Rightarrow> int \<Rightarrow> int" where
  "days_in_month y m =
     (if m = 2 then (if is_leap y then 29 else 28)
      else if m = 4 \<or> m = 6 \<or> m = 9 \<or> m = 11 then 30 else 31)"

text \<open>The ordinal of a day, 1 for 1 January of year 1.\<close>

definition ymd2ord :: "int \<Rightarrow> int \<Rightarrow> int \<Rightarrow> int" where
  "ymd2ord y m d =
     (y - 1) * 365 + (y - 1) div 4 - (y - 1) div 100 + (y - 1) div 400
       + sum_list (map (days_in_month y) [1..m - 1]) + d"

definition all_digits :: "string \<Rightarrow> bool" where
  "all_digits s = list_all is_digit s"

text \<open>\<^verbatim>\<open>HH[:MM[:SS[.fff[fff]]]]\<close>: hours, minutes, seconds, microseconds.\<close>

definition parse_hh_mm_ss_ff :: "string \<Rightarrow> (int \<times> int \<times> int \<times> int) option" where
  "parse_hh_mm_ss_ff s =
     (if length s < 2 \<or> \<not> all_digits (take 2 s) then None
      else
        let hh = digits_val (take 2 s); r = drop 2 s
        in if r = [] then Some (hh, 0, 0, 0)
           else if hd r \<noteq> CHR '':'' \<or> length r < 3 \<or> \<not> all_digits (take 2 (tl r)) then None
           else
             let mm = digits_val (take 2 (tl r)); r2 = drop 3 r
             in if r2 = [] then Some (hh, mm, 0, 0)
                else if hd r2 \<noteq> CHR '':'' \<or> length r2 < 3 \<or> \<not> all_digits (take 2 (tl r2)) then None
                else
                  let ss = digits_val (take 2 (tl r2)); r3 = drop 3 r2
                  in if r3 = [] then Some (hh, mm, ss, 0)
                     else if hd r3 \<noteq> CHR ''.'' then None
                     else if length (tl r3) = 6 \<and> all_digits (tl r3)
                       then Some (hh, mm, ss, digits_val (tl r3))
                     else if length (tl r3) = 3 \<and> all_digits (tl r3)
                       then Some (hh, mm, ss, digits_val (tl r3) * 1000)
                     else None)"

definition parse_date :: "string \<Rightarrow> int option" where
  "parse_date s =
     (if length s = 10 \<and> all_digits (take 4 s) \<and> s ! 4 = CHR ''-'' \<and> all_digits (take 2 (drop 5 s))
         \<and> s ! 7 = CHR ''-'' \<and> all_digits (drop 8 s)
      then
        let y = digits_val (take 4 s); m = digits_val (take 2 (drop 5 s)); d = digits_val (drop 8 s)
        in if 1 \<le> y \<and> 1 \<le> m \<and> m \<le> 12 \<and> 1 \<le> d \<and> d \<le> days_in_month y m
           then Some (ymd2ord y m d) else None
      else None)"

definition is_sign :: "char \<Rightarrow> bool" where
  "is_sign c \<longleftrightarrow> c = CHR ''+'' \<or> c = CHR ''-''"

text \<open>
  \<^verbatim>\<open>+HH:MM[:SS[.ffffff]]\<close>, the sign included: the offset in microseconds, which has to be
  less than a day.
\<close>

definition parse_offset :: "string \<Rightarrow> int option" where
  "parse_offset z =
     (if length (tl z) = 5 \<or> length (tl z) = 8 \<or> length (tl z) = 15 then
        (case parse_hh_mm_ss_ff (tl z) of
           None \<Rightarrow> None
         | Some (h, m, s, us) \<Rightarrow>
             let off = (if hd z = CHR ''-'' then - 1 else 1)
                         * (((h * 60 + m) * 60 + s) * 1000000 + us)
             in if \<bar>off\<bar> < 86400000000 then Some off else None)
      else None)"

definition fromisoformat :: "string \<Rightarrow> (int \<times> int option) option" where
  "fromisoformat s =
     (case parse_date (take 10 s) of
        None \<Rightarrow> None
      | Some ord \<Rightarrow>
          if length s = 10 then Some (ord * 86400000000, None)
          else
            let t = dropWhile is_cont (drop 11 s);
                clock = takeWhile (\<lambda>c. \<not> is_sign c) t;
                z = dropWhile (\<lambda>c. \<not> is_sign c) t
            in case parse_hh_mm_ss_ff clock of
                 None \<Rightarrow> None
               | Some (hh, mm, ss, us) \<Rightarrow>
                   if hh < 24 \<and> mm < 60 \<and> ss < 60 then
                     (let wall = (((ord * 24 + hh) * 60 + mm) * 60 + ss) * 1000000 + us
                      in if z = [] then Some (wall, None)
                         else (case parse_offset z of
                                 None \<Rightarrow> None
                               | Some off \<Rightarrow> Some (wall, Some off)))
                   else None)"

text \<open>
  \<^verbatim>\<open>int((a - b).total_seconds())\<close>: the difference in whole seconds, truncated towards zero.
  Two naive values differ by their wall-clock times, two aware ones by their UTC instants;
  one of each is a \<^verbatim>\<open>TypeError\<close> (\<open>None\<close>).
\<close>

definition trunc_seconds :: "int \<Rightarrow> int" where
  "trunc_seconds us = (if us \<ge> 0 then us div 1000000 else - ((- us) div 1000000))"

definition seconds_between :: "int \<times> int option \<Rightarrow> int \<times> int option \<Rightarrow> int option" where
  "seconds_between a b =
     (case (snd a, snd b) of
        (None, None) \<Rightarrow> Some (trunc_seconds (fst a - fst b))
      | (Some oa, Some ob) \<Rightarrow> Some (trunc_seconds ((fst a - oa) - (fst b - ob)))
      | _ \<Rightarrow> None)"

text \<open>\<^verbatim>\<open>datetime.fromisoformat(ts.replace("Z", "+00:00"))\<close>, as lines 451 reads a timestamp.\<close>

definition parse_ts :: "string \<Rightarrow> (int \<times> int option) option" where
  "parse_ts ts = fromisoformat (replace_char (CHR ''Z'') ''+00:00'' ts)"

text \<open>
  Lines 450 to 453 of \<^verbatim>\<open>_build_call_record\<close>: the span between the first and the last
  timestamp, 0 when a timestamp does not parse or the subtraction raises.
\<close>

definition event_span :: "string \<Rightarrow> string \<Rightarrow> int" where
  "event_span first_ts last_ts =
     (case parse_ts last_ts of
        None \<Rightarrow> 0
      | Some l \<Rightarrow>
          (case parse_ts first_ts of
             None \<Rightarrow> 0
           | Some f \<Rightarrow>
               (case seconds_between l f of
                  None \<Rightarrow> 0
                | Some d \<Rightarrow> max 0 d)))"

section \<open>The payload normalizer\<close>

text \<open>
  \<^verbatim>\<open>_parse_payload\<close> (main.py, lines 317 to 323). The argument is the \<^verbatim>\<open>payload\<close> column,
  \<open>None\<close> when it is NULL; the result \<open>PNone\<close> is Python's \<^verbatim>\<open>None\<close>.
\<close>

definition parse_payload :: "string option \<Rightarrow> pyval" where
  "parse_payload payload_str =
     (case payload_str of
        None \<Rightarrow> PNone
      | Some s \<Rightarrow>
          if s = [] then PNone
          else (case json_loads s of None \<Rightarrow> PNone | Some v \<Rightarrow> v))"

lemma parse_payload_size: "parse_payload (Some s) = v \<Longrightarrow> v \<noteq> PNone \<Longrightarrow> tsize v \<le> length s"
  by (auto simp: parse_payload_def dest: json_loads_size split: if_splits option.splits)

text \<open>
  \<^verbatim>\<open>_payload_as_dict\<close> (main.py, lines 326 to 339). The source recurses on a string that
  decodes to a string, with no counter; the recursion ends because the decoded string is
  shorter than its literal.
\<close>

function (sequential) payload_as_dict :: "pyval \<Rightarrow> (string \<times> pyval) list" where
  "payload_as_dict PNone = []"
| "payload_as_dict (PDict d) = d"
| "payload_as_dict (PStr s) =
     (case parse_payload (Some s) of
        PDict d \<Rightarrow> d
      | PStr s' \<Rightarrow> payload_as_dict (PStr s')
      | _ \<Rightarrow> [])"
| "payload_as_dict _ = []"
  by pat_completeness auto
termination
proof (relation "measure tsize", goal_cases)
  case 1
  show ?case by simp
next
  case (2 s s')
  from parse_payload_size [OF 2] show ?case by simp
qed

section \<open>The sentiment classifier\<close>

text \<open>
  \<^verbatim>\<open>_normalize_sentiment\<close> (main.py, lines 418 to 436). The argument is whatever the payload
  holds under the sentiment key. \<^verbatim>\<open>(raw or "").strip()\<close> needs a string: a non-empty value
  of another type has no \<^verbatim>\<open>strip\<close>.
\<close>

definition normalize_sentiment :: "pyval \<Rightarrow> error + string" where
  "normalize_sentiment raw =
     (if \<not> truthy raw then Inr ''neutral''
      else case raw of
        PStr r \<Rightarrow>
          (let s = lower (strip r)
           in if s \<in> set [''positive'', ''professional & satisfied'', ''friendly & cooperative'',
                            ''really positive'', ''very positive''] then Inr ''positive''
              else if s \<in> set [''neutral''] then Inr ''neutral''
              else if s \<in> set [''negative'', ''unprofessional'', ''really negative'', ''very negative'']
                then Inr ''negative''
              else if s \<in> set [''frustrated'', ''impatient'', ''dismissive'', ''angry'']
                then Inr ''frustrated''
              else if contains ''positive'' s then Inr ''positive''
              else if contains ''negative'' s then Inr ''negative''
              else if contains ''frustrat'' s \<or> contains ''angry'' s \<or> contains ''impatient'' s
                then Inr ''frustrated''
              else Inr ''neutral'')
      | _ \<Rightarrow> Inl AttributeError)"

section \<open>The reasoning text\<close>

text \<open>
  \<^verbatim>\<open>_first_reasoning\<close> (main.py, lines 524 to 553), a closure of \<^verbatim>\<open>_build_call_record\<close>:
  the first key of \<open>reasoning_keys\<close> that holds a non-blank string, else the same search in
  the dicts found under \<^verbatim>\<open>payload\<close>, \<^verbatim>\<open>data\<close> and \<^verbatim>\<open>body\<close>, a string there being decoded
  first. \<open>nested_reasoning d names\<close> is the second loop with the names still to visit.
\<close>

definition reasoning_keys :: "string list" where
  "reasoning_keys =
     [''sentiment_reasoning'', ''reasoning'', ''response_reasoning'', ''sentimentReasoning'',
      ''reason'', ''why'', ''explanation'', ''Response Reasoning'', ''Sentiment_Reasoning'']"

fun direct_reasoning :: "(string \<times> pyval) list \<Rightarrow> string list \<Rightarrow> string option" where
  "direct_reasoning d [] = None"
| "direct_reasoning d (k # ks) =
     (case dict_get d k of
        PStr v \<Rightarrow> if strip v \<noteq> [] then Some (strip v) else direct_reasoning d ks
      | _ \<Rightarrow> direct_reasoning d ks)"

lemma member_weight: "(k, v) \<in> set d \<Longrightarrow> length k + Suc (tsize v) \<le> weight d"
  by (induction d) auto

lemma dict_get_size:
  assumes "dict_get d k = v" "v \<noteq> PNone"
  shows "tsize v < tsize (PDict d)"
proof -
  from assms have "(k, v) \<in> set d"
    by (auto simp: dict_get_def split: option.splits dest: map_of_SomeD)
  from member_weight [OF this] show ?thesis
    by (simp add: weight_def)
qed

lemma loads_dict_size:
  assumes "dict_get d n = PStr s" "json_loads s = Some (PDict p)"
  shows "tsize (PDict p) < tsize (PDict d)"
  using dict_get_size [OF assms(1)] json_loads_size [OF assms(2)] by simp

function first_reasoning :: "(string \<times> pyval) list \<Rightarrow> string option"
  and nested_reasoning :: "(string \<times> pyval) list \<Rightarrow> string list \<Rightarrow> string option"
where
  "first_reasoning d =
     (case direct_reasoning d reasoning_keys of
        Some v \<Rightarrow> Some v
      | None \<Rightarrow> nested_reasoning d [''payload'', ''data'', ''body''])"
| "nested_reasoning d [] = None"
| "nested_reasoning d (n # ns) =
     (case dict_get d n of
        PDict sub \<Rightarrow>
          (case first_reasoning sub of
             Some found \<Rightarrow> Some found
           | None \<Rightarrow> nested_reasoning d ns)
      | PStr s \<Rightarrow>
          (case json_loads s of
             Some (PDict parsed) \<Rightarrow>
               (case first_reasoning parsed of
                  Some found \<Rightarrow> Some found
                | None \<Rightarrow> nested_reasoning d ns)
           | _ \<Rightarrow> nested_reasoning d ns)
      | _ \<Rightarrow> nested_reasoning d ns)"
  by pat_completeness auto
termination
  by (relation "measure (\<lambda>x. case x of
            Inl d \<Rightarrow> 5 * tsize (PDict d) + 4
          | Inr (d, ns) \<Rightarrow> 5 * tsize (PDict d) + length ns)")
     (auto simp del: tsize.simps dest: dict_get_size loads_dict_size)

section \<open>The stores\<close>

text \<open>
  storage.py keeps three SQLite tables. A row of \<^verbatim>\<open>events\<close> is a record; its \<^verbatim>\<open>id\<close> is the
  key the store assigns on insert. A row of the two profile tables is the dict that
  \<^verbatim>\<open>dict(row)\<close> yields, column name to value. Every operation takes the store and returns it
  with its result; the three readers below run a \<^verbatim>\<open>SELECT\<close> and return the store as it was.
\<close>

record event_row =
  row_id :: int
  row_call_id :: string
  row_event_type :: string
  row_payload :: "string option"
  row_timestamp :: string

record event =
  event_type :: string
  payload :: "string option"
  timestamp :: string

record store =
  events_tbl :: "event_row list"
  carrier_profiles_tbl :: "(string \<times> pyval) list list"
  call_search_prefs_tbl :: "(string \<times> pyval) list list"

text \<open>
  \<^verbatim>\<open>get_events_by_call_id\<close> (storage.py, lines 236 to 252):
  \<^verbatim>\<open>SELECT event_type, payload, timestamp FROM events WHERE call_id = ? ORDER BY id ASC\<close>.
\<close>

definition get_events_by_call_id :: "string \<Rightarrow> store \<Rightarrow> event list \<times> store" where
  "get_events_by_call_id call_id st =
     (map (\<lambda>r. \<lparr>event_type = row_event_type r, payload = row_payload r,
                 timestamp = row_timestamp r\<rparr>)
        (sort_key row_id (filter (\<lambda>r. row_call_id r = call_id) (events_tbl st))),
      st)"

text \<open>
  \<^verbatim>\<open>log_event\<close> (storage.py, lines 92 to 102): the one writer of \<^verbatim>\<open>events\<close>. The new row
  takes the next id; \<open>now\<close> is the clock reading and \<open>text\<close> the \<^verbatim>\<open>json.dumps\<close> of the payload.
\<close>

definition log_event :: "string \<Rightarrow> string \<Rightarrow> string \<Rightarrow> string \<Rightarrow> store \<Rightarrow> bool \<times> store" where
  "log_event call_id etype text now st =
     (True,
      st\<lparr>events_tbl := events_tbl st @
           [\<lparr>row_id = (if events_tbl st = [] then 1 else Max (set (map row_id (events_tbl st))) + 1),
             row_call_id = call_id, row_event_type = etype, row_payload = Some text,
             row_timestamp = now\<rparr>]\<rparr>)"

text \<open>The decimal text of an integer, as SQLite renders an INTEGER compared with a TEXT column.\<close>

fun nat_text :: "nat \<Rightarrow> string" where
  "nat_text n = (if n < 10 then [char_of (48 + n)] else nat_text (n div 10) @ [char_of (48 + n mod 10)])"

declare nat_text.simps [simp del]

definition int_text :: "int \<Rightarrow> string" where
  "int_text n = (if n < 0 then CHR ''-'' # nat_text (nat (- n)) else nat_text (nat n))"

text \<open>
  A Python value bound to the parameter of \<^verbatim>\<open>WHERE mc_number = ?\<close>, as the text the TEXT
  column is compared with: a string as it is, an int (a bool is one) by its decimal text.
  \<^verbatim>\<open>None\<close> binds NULL, which equals no row. A list or dict cannot be bound and an int
  beyond 64 bits does not fit: the driver raises. A float is compared through SQLite's
  rendering of a REAL, which the model does not have: it is taken to equal no row.
\<close>

definition sql_text :: "pyval \<Rightarrow> error + string option" where
  "sql_text v =
     (case v of
        PNone \<Rightarrow> Inr None
      | PBool b \<Rightarrow> Inr (Some (if b then ''1'' else ''0''))
      | PInt n \<Rightarrow>
          if - (2 ^ 63) \<le> n \<and> n < 2 ^ 63 then Inr (Some (int_text n)) else Inl OverflowError
      | PFloat f \<Rightarrow> Inr None
      | PStr s \<Rightarrow> Inr (Some s)
      | PList xs \<Rightarrow> Inl ProgrammingError
      | PDict kvs \<Rightarrow> Inl ProgrammingError)"

text \<open>
  \<^verbatim>\<open>get_carrier_profile\<close> (storage.py, lines 152 to 160): the row or \<^verbatim>\<open>None\<close>.
\<close>

definition get_carrier_profile :: "pyval \<Rightarrow> store \<Rightarrow> (error + pyval) \<times> store" where
  "get_carrier_profile mc st =
     (case sql_text mc of
        Inl e \<Rightarrow> (Inl e, st)
      | Inr None \<Rightarrow> (Inr PNone, st)
      | Inr (Some key) \<Rightarrow>
          (case find (\<lambda>row. dict_get row ''mc_number'' = PStr key) (carrier_profiles_tbl st) of
             None \<Rightarrow> (Inr PNone, st)
           | Some row \<Rightarrow> (Inr (PDict row), st)))"

text \<open>
  \<^verbatim>\<open>get_call_search_prefs\<close> (storage.py, lines 210 to 218): the row or \<^verbatim>\<open>None\<close>.
\<close>

definition get_call_search_prefs :: "string \<Rightarrow> store \<Rightarrow> pyval \<times> store" where
  "get_call_search_prefs call_id st =
     (case find (\<lambda>row. dict_get row ''call_id'' = PStr call_id) (call_search_prefs_tbl st) of
        None \<Rightarrow> (PNone, st)
      | Some row \<Rightarrow> (PDict row, st))"

section \<open>The call record builder\<close>

text \<open>
  \<^verbatim>\<open>_build_call_record\<close> (main.py, lines 439 to 559), in the order of the source. The record
  is the dict the function returns, one field per key (\<open>rec_id\<close> is the key \<^verbatim>\<open>id\<close>,
  \<open>rec_timestamp\<close> the key \<^verbatim>\<open>timestamp\<close>); the nested dicts stay dicts.
\<close>

record call_record =
  rec_id :: string
  rec_timestamp :: string
  mc_number :: pyval
  carrier_name :: pyval
  fmcsa_verified :: bool
  verification_status :: string
  load_matched :: pyval
  negotiation :: pyval
  outcome :: string
  sentiment :: string
  sentiment_tone :: pyval
  sentiment_reasoning :: "string option"
  call_duration_seconds :: int
  sales_rep_notes :: pyval
  call_search_prefs :: pyval

record entry =
  entry_payload :: pyval
  entry_timestamp :: string

text \<open>Lines 443 to 447: the last event of each type, by the trimmed and unquoted type.\<close>

definition event_key :: "event \<Rightarrow> string" where
  "event_key e = strip_quotes (strip (event_type e))"

definition group_step :: "(string \<rightharpoonup> entry) \<Rightarrow> event \<Rightarrow> (string \<rightharpoonup> entry)" where
  "group_step by_type e =
     (if event_key e \<noteq> []
      then by_type(event_key e \<mapsto>
             \<lparr>entry_payload = parse_payload (payload e), entry_timestamp = timestamp e\<rparr>)
      else by_type)"

definition group_by_type :: "event list \<Rightarrow> (string \<rightharpoonup> entry)" where
  "group_by_type evs = foldl group_step Map.empty evs"

text \<open>\<^verbatim>\<open>(by_type.get(k) or {}).get("payload")\<close>; an entry is a non-empty dict, hence true.\<close>

definition type_payload :: "(string \<rightharpoonup> entry) \<Rightarrow> string \<Rightarrow> pyval" where
  "type_payload by_type k = (case by_type k of None \<Rightarrow> PNone | Some ent \<Rightarrow> entry_payload ent)"

text \<open>\<^verbatim>\<open>(by_type.get(k) or {}).get("payload") or {}\<close>.\<close>

definition payload_or_empty :: "(string \<rightharpoonup> entry) \<Rightarrow> string \<Rightarrow> pyval" where
  "payload_or_empty by_type k = py_or (type_payload by_type k) (PDict [])"

text \<open>The items of a value known to be a dict.\<close>

definition the_dict :: "pyval \<Rightarrow> (string \<times> pyval) list" where
  "the_dict v = (case v of PDict d \<Rightarrow> d | _ \<Rightarrow> [])"

text \<open>Lines 455 to 459: the reported duration, when there is one, replaces the span.\<close>

definition resolve_duration :: "(string \<rightharpoonup> entry) \<Rightarrow> int \<Rightarrow> error + int" where
  "resolve_duration by_type span_s =
     bind (py_get (payload_or_empty by_type ''call_classified'') ''call_duration_seconds'') (\<lambda>x.
       if x \<noteq> PNone then
         bind (safe_number_convert x T_int) (\<lambda>reported.
           Inr (case reported of PInt n \<Rightarrow> if n \<ge> 0 then n else span_s | _ \<Rightarrow> span_s))
       else Inr span_s)"

text \<open>
  Lines 460 to 464: eligibility, MC number and carrier name of the verification payload.
\<close>

definition verify_fields :: "(string \<rightharpoonup> entry) \<Rightarrow> error + (pyval \<times> pyval \<times> pyval)" where
  "verify_fields by_type =
     (let verify = payload_or_empty by_type ''verify_mc_result''
      in bind (py_get verify ''carrier'') (\<lambda>c.
           let carrier = py_or c (PDict [])
           in bind (py_get verify ''eligible'') (\<lambda>eligible.
              bind (py_get carrier ''mc_number'') (\<lambda>m1.
              bind (py_get verify ''mc_number'') (\<lambda>m2.
              bind (py_get carrier ''name'') (\<lambda>n1.
              bind (py_get carrier ''legal_name'') (\<lambda>n2.
                Inr (eligible, py_or m1 (py_or m2 (PStr [])), py_or n1 (py_or n2 (PStr []))))))))))"

text \<open>Lines 465 to 467: the name falls back to the stored profile, then to \<^verbatim>\<open>"Unknown"\<close>.\<close>

definition backfill_name :: "pyval \<Rightarrow> pyval \<Rightarrow> store \<Rightarrow> (error + pyval) \<times> store" where
  "backfill_name name mc st =
     (if \<not> truthy name \<and> truthy mc then
        (case get_carrier_profile mc st of
           (Inl e, st') \<Rightarrow> (Inl e, st')
         | (Inr prof, st') \<Rightarrow>
             (Inr (py_or (py_or (dict_get (the_dict prof) ''legal_name'') (PStr [])) (PStr ''Unknown'')),
              st'))
      else (Inr (py_or name (PStr ''Unknown'')), st))"

text \<open>The em dash of the source's placeholders, in UTF-8.\<close>

definition em_dash :: string where
  "em_dash = [CHR 0xE2, CHR 0x80, CHR 0x94]"

text \<open>Lines 475 to 489: the load snapshot of a dict that names a load.\<close>

definition load_snapshot :: "(string \<times> pyval) list \<Rightarrow> error + pyval" where
  "load_snapshot d =
     bind (safe_number_convert (py_or (dict_get d ''loadboard_rate'') (dict_get d ''rate'')) T_float) (\<lambda>rate.
     bind (safe_number_convert (dict_get d ''weight'') T_float) (\<lambda>wgt.
     bind (safe_number_convert (dict_get d ''miles'') T_float) (\<lambda>miles.
     bind (safe_number_convert (dict_get d ''num_of_pieces'') T_int) (\<lambda>pieces.
       Inr (PDict
         [(''load_id'', py_or (dict_get d ''load_id'') (PStr em_dash)),
          (''origin'', py_or (dict_get d ''origin'') (PStr ''Unknown'')),
          (''destination'', py_or (dict_get d ''destination'') (PStr ''Unknown'')),
          (''pickup_datetime'', py_or (dict_get d ''pickup_datetime'') (PStr [])),
          (''delivery_datetime'', py_or (dict_get d ''delivery_datetime'') (PStr [])),
          (''equipment_type'', py_or (dict_get d ''equipment_type'') (PStr ''Van'')),
          (''loadboard_rate'', py_or rate (PInt 0)),
          (''weight'', py_or wgt (PInt 0)),
          (''commodity_type'',
             py_or (dict_get d ''commodity_type'') (py_or (dict_get d ''commodity'') (PStr []))),
          (''miles'', py_or miles (PInt 0)),
          (''notes'', py_or (dict_get d ''notes'') (PStr [])),
          (''num_of_pieces'', pieces),
          (''dimensions'', py_or (dict_get d ''dimensions'') (PStr []))])))))"

text \<open>
  Lines 470 to 489: the negotiation payload and the matched load. The load comes from the
  negotiation payload when that names a load, else from the best load retrieved.
\<close>

definition resolve_load :: "(string \<rightharpoonup> entry) \<Rightarrow> error + (pyval \<times> pyval)" where
  "resolve_load by_type =
     (let neg = payload_or_empty by_type ''negotiation_complete'';
          best_load = payload_or_empty by_type ''best_load_retrieved''
      in bind (py_get neg ''load_id'') (\<lambda>l1.
         bind (py_get neg ''origin'') (\<lambda>o1.
           let load_data = (if truthy (py_or l1 o1) then neg else best_load)
           in if \<not> truthy load_data then Inr (neg, PNone)
              else
                bind (py_get load_data ''load_id'') (\<lambda>l2.
                bind (py_get load_data ''origin'') (\<lambda>o2.
                  if truthy (py_or l2 o2)
                  then bind (load_snapshot (the_dict load_data)) (\<lambda>lm. Inr (neg, lm))
                  else Inr (neg, PNone))))))"

text \<open>
  \<^verbatim>\<open>==\<close> between values of which one is a number, a bool, a string or \<^verbatim>\<open>None\<close>: numbers
  compare by value across \<^verbatim>\<open>bool\<close>, \<^verbatim>\<open>int\<close> and \<^verbatim>\<open>float\<close> (\<^verbatim>\<open>1 == True\<close>), NaN equals
  nothing, anything else compares with its own kind.
\<close>

definition py_num :: "pyval \<Rightarrow> pyfloat option" where
  "py_num v =
     (case v of
        PBool b \<Rightarrow> Some (Finite (if b then 1 else 0))
      | PInt n \<Rightarrow> Some (Finite (of_int n))
      | PFloat f \<Rightarrow> Some f
      | _ \<Rightarrow> None)"

definition py_eq :: "pyval \<Rightarrow> pyval \<Rightarrow> bool" where
  "py_eq a b =
     (case (py_num a, py_num b) of
        (Some x, Some y) \<Rightarrow> x = y \<and> x \<noteq> NaN
      | (None, None) \<Rightarrow> a = b
      | _ \<Rightarrow> False)"

text \<open>\<^verbatim>\<open>x in (a, b, c)\<close>.\<close>

definition py_in :: "pyval \<Rightarrow> pyval list \<Rightarrow> bool" where
  "py_in x ys = list_ex (py_eq x) ys"

text \<open>\<^verbatim>\<open>x > 0\<close> for a number.\<close>

definition py_pos :: "pyval \<Rightarrow> bool" where
  "py_pos v =
     (case py_num v of
        Some (Finite q) \<Rightarrow> q > 0
      | Some PosInf \<Rightarrow> True
      | _ \<Rightarrow> False)"

text \<open>
  Lines 490 to 495: \<^verbatim>\<open>rounds\<close>. An \<^verbatim>\<open>int\<close> (or \<^verbatim>\<open>bool\<close>) stays; anything else goes through
  \<^verbatim>\<open>int()\<close>, whose \<^verbatim>\<open>ValueError\<close> and \<^verbatim>\<open>TypeError\<close> give 0; \<^verbatim>\<open>OverflowError\<close> is not caught.
\<close>

definition coerce_rounds :: "pyval \<Rightarrow> error + pyval" where
  "coerce_rounds r =
     (case r of
        PBool b \<Rightarrow> Inr r
      | PInt n \<Rightarrow> Inr r
      | PFloat f \<Rightarrow>
          (case int_of_float f of
             Inr n \<Rightarrow> Inr (PInt n)
           | Inl e \<Rightarrow> if e = ValueError then Inr (PInt 0) else Inl e)
      | PStr s \<Rightarrow> Inr (PInt (case int_of_str s of None \<Rightarrow> 0 | Some n \<Rightarrow> n))
      | _ \<Rightarrow> Inr (PInt 0))"

text \<open>\<^verbatim>\<open>for x in v\<close>: the items of a list, the characters of a string, the keys of a dict.\<close>

definition py_iter :: "pyval \<Rightarrow> error + pyval list" where
  "py_iter v =
     (case v of
        PList xs \<Rightarrow> Inr xs
      | PStr s \<Rightarrow> Inr (map PStr (utf8_chars s))
      | PDict kvs \<Rightarrow> Inr (map (\<lambda>kv. PStr (fst kv)) kvs)
      | _ \<Rightarrow> Inl TypeError)"

fun map_err :: "('a \<Rightarrow> error + 'b) \<Rightarrow> 'a list \<Rightarrow> error + 'b list" where
  "map_err f [] = Inr []"
| "map_err f (x # xs) = bind (f x) (\<lambda>y. bind (map_err f xs) (\<lambda>ys. Inr (y # ys)))"

text \<open>
  Lines 496 to 500: the offers and the negotiation dict, built when a load was matched or
  the negotiation payload is not empty. \<open>neg\<close> is a dict here.
\<close>

definition accepted_of :: "pyval \<Rightarrow> bool" where
  "accepted_of neg = py_in (dict_get (the_dict neg) ''accepted'') [PBool True, PStr ''true'', PStr ''True'']"

definition negotiation_dict :: "pyval \<Rightarrow> pyval \<Rightarrow> pyval \<Rightarrow> error + pyval" where
  "negotiation_dict neg lm rounds =
     bind (safe_number_convert
             (py_or (dict_get (the_dict neg) ''loadboard_rate'')
                (py_or (dict_get (the_dict neg) ''original_rate'')
                   (dict_get (the_dict lm) ''loadboard_rate'')))
             T_float) (\<lambda>initial_offer.
     bind (py_iter (py_or (dict_get (the_dict neg) ''counter_offers'') (PList []))) (\<lambda>items.
     bind (map_err (\<lambda>x. bind (safe_number_convert x T_float) (\<lambda>v. Inr (py_or v (PInt 0)))) items)
       (\<lambda>counter_offers.
     bind (safe_number_convert
             (py_or (dict_get (the_dict neg) ''final_price'') (dict_get (the_dict neg) ''final_rate''))
             T_float) (\<lambda>final_rate.
       Inr (if truthy lm \<or> truthy neg
            then PDict
              [(''rounds'', rounds),
               (''initial_offer'',
                  py_or initial_offer (py_or (dict_get (the_dict lm) ''loadboard_rate'') (PInt 0))),
               (''counter_offers'', PList counter_offers),
               (''final_rate'', final_rate),
               (''agreed'', PBool (accepted_of neg))]
            else PNone)))))"

text \<open>
  Lines 502 to 505: a matched load whose rate is zero takes the negotiation's initial offer,
  or else its final rate, when that is positive.
\<close>

definition backfill_rate :: "pyval \<Rightarrow> pyval \<Rightarrow> pyval" where
  "backfill_rate lm ng =
     (if truthy lm \<and> py_eq (py_or (dict_get (the_dict lm) ''loadboard_rate'') (PInt 0)) (PInt 0)
         \<and> truthy ng
      then
        let fallback_rate = py_or (dict_get (the_dict ng) ''initial_offer'')
                                  (dict_get (the_dict ng) ''final_rate'')
        in if fallback_rate \<noteq> PNone \<and> py_pos fallback_rate
           then PDict (AList.update ''loadboard_rate'' fallback_rate (the_dict lm))
           else lm
      else lm)"

text \<open>Lines 490 to 505: negotiation dict, load, acceptance flag.\<close>

definition resolve_negotiation :: "pyval \<Rightarrow> pyval \<Rightarrow> error + (pyval \<times> pyval \<times> bool)" where
  "resolve_negotiation neg lm =
     bind (coerce_rounds (py_or (dict_get (the_dict neg) ''negotiation_rounds'') (PInt 0))) (\<lambda>rounds.
     bind (negotiation_dict neg lm rounds) (\<lambda>ng.
       Inr (ng, backfill_rate lm ng, accepted_of neg)))"

text \<open>Lines 506 to 513: the outcome.\<close>

definition decide_outcome :: "bool \<Rightarrow> pyval \<Rightarrow> pyval \<Rightarrow> bool \<Rightarrow> string" where
  "decide_outcome verified eligible neg accepted =
     (if \<not> verified \<and> eligible = PBool False then ''failed_verification''
      else if \<not> truthy neg then ''dropped''
      else if accepted then ''booked''
      else ''no_deal'')"

text \<open>
  Lines 515 to 554: sentiment, tone and reasoning, from the normalized payloads of the
  sentiment and classification events.
\<close>

definition resolve_sentiment ::
  "(string \<rightharpoonup> entry) \<Rightarrow> error + (string \<times> pyval \<times> string option)" where
  "resolve_sentiment by_type =
     (let sentiment_row = payload_as_dict (type_payload by_type ''sentiment_classified'');
          classified_row = payload_as_dict (type_payload by_type ''call_classified'')
      in bind (normalize_sentiment
                 (py_or (dict_get sentiment_row ''sentiment_classification'')
                    (py_or (dict_get sentiment_row ''sentiment'') (dict_get classified_row ''sentiment''))))
           (\<lambda>s. Inr (s,
                  py_or (dict_get sentiment_row ''tone'') (dict_get classified_row ''tone''),
                  (case first_reasoning sentiment_row of
                     Some v \<Rightarrow> Some v
                   | None \<Rightarrow> first_reasoning classified_row))))"

text \<open>Lines 555 to 558: the stored search preferences of the call.\<close>

definition prefs_snapshot :: "(string \<times> pyval) list \<Rightarrow> error + pyval" where
  "prefs_snapshot row =
     bind (safe_number_convert (dict_get row ''weight_capacity'') T_int) (\<lambda>wc.
     bind (safe_number_convert (dict_get row ''min_temp'') T_float) (\<lambda>lo.
     bind (safe_number_convert (dict_get row ''max_temp'') T_float) (\<lambda>hi.
       Inr (PDict
         [(''origin_city'', dict_get row ''origin_city''),
          (''origin_state'', dict_get row ''origin_state''),
          (''destination_city'', dict_get row ''destination_city''),
          (''destination_state'', dict_get row ''destination_state''),
          (''equipment_type'', dict_get row ''equipment_type''),
          (''weight_capacity'', wc),
          (''min_temp'', lo),
          (''max_temp'', hi),
          (''notes'', dict_get row ''notes''),
          (''pickup_date'', dict_get row ''pickup_date''),
          (''departure_date'', dict_get row ''departure_date''),
          (''latest_departure_date'', dict_get row ''latest_departure_date'')]))))"

definition resolve_prefs :: "string \<Rightarrow> store \<Rightarrow> (error + pyval) \<times> store" where
  "resolve_prefs call_id st =
     (case get_call_search_prefs call_id st of
        (prefs_row, st') \<Rightarrow>
          (case prefs_row of
             PDict row \<Rightarrow> if row \<noteq> [] then (prefs_snapshot row, st') else (Inr PNone, st')
           | _ \<Rightarrow> (Inr PNone, st')))"

text \<open>
  The whole function. \<open>Inr None\<close> is the \<^verbatim>\<open>None\<close> returned for a call without events,
  \<open>Inl e\<close> an exception that leaves the function.
\<close>

definition build_call_record :: "string \<Rightarrow> store \<Rightarrow> (error + call_record option) \<times> store" where
  "build_call_record call_id st =
     (case get_events_by_call_id call_id st of
        (evs, st1) \<Rightarrow>
          if evs = [] then (Inr None, st1)
          else
            let by_type = group_by_type evs;
                first_ts = timestamp (hd evs);
                last_ts = timestamp (last evs)
            in case resolve_duration by_type (event_span first_ts last_ts) of
                 Inl e \<Rightarrow> (Inl e, st1)
               | Inr duration_seconds \<Rightarrow>
            (case verify_fields by_type of
               Inl e \<Rightarrow> (Inl e, st1)
             | Inr (eligible, mc, name) \<Rightarrow>
            (case backfill_name name mc st1 of
               (Inl e, st2) \<Rightarrow> (Inl e, st2)
             | (Inr cname, st2) \<Rightarrow>
            (case resolve_load by_type of
               Inl e \<Rightarrow> (Inl e, st2)
             | Inr (neg, lm0) \<Rightarrow>
            (case resolve_negotiation neg lm0 of
               Inl e \<Rightarrow> (Inl e, st2)
             | Inr (ng, lm, accepted) \<Rightarrow>
            (case resolve_sentiment by_type of
               Inl e \<Rightarrow> (Inl e, st2)
             | Inr (sent, tone, reasoning) \<Rightarrow>
            (case resolve_prefs call_id st2 of
               (Inl e, st3) \<Rightarrow> (Inl e, st3)
             | (Inr prefs, st3) \<Rightarrow>
                 (Inr (Some
                    \<lparr>rec_id = call_id,
                     rec_timestamp = first_ts,
                     mc_number = py_or mc (PStr em_dash),
                     carrier_name = cname,
                     fmcsa_verified = (eligible = PBool True),
                     verification_status =
                       (if eligible = PBool False then ''failed''
                        else if eligible = PBool True then ''verified'' else ''pending''),
                     load_matched = lm,
                     negotiation = ng,
                     outcome = decide_outcome (eligible = PBool True) eligible neg accepted,
                     sentiment = sent,
                     sentiment_tone = tone,
                     sentiment_reasoning = reasoning,
                     call_duration_seconds = duration_seconds,
                     sales_rep_notes = PNone,
                     call_search_prefs = prefs\<rparr>),
                  st3))))))))"

section \<open>What the specification speaks of\<close>

text \<open>
  The specification describes the record in terms of the latest event of a type and of
  values in its payload. These definitions follow its words; the theorems relate them to
  the builder.
\<close>

definition events_of :: "store \<Rightarrow> string \<Rightarrow> event list" where
  "events_of st call_id = fst (get_events_by_call_id call_id st)"

text \<open>The last event, in store order, whose type is \<open>k\<close>.\<close>

definition latest_event :: "event list \<Rightarrow> string \<Rightarrow> event option" where
  "latest_event evs k =
     (if filter (\<lambda>e. event_key e = k) evs = [] then None
      else Some (last (filter (\<lambda>e. event_key e = k) evs)))"

text \<open>Its decoded payload, \<^verbatim>\<open>None\<close> when there is no such event or the payload does not decode.\<close>

definition latest_payload :: "store \<Rightarrow> string \<Rightarrow> string \<Rightarrow> pyval" where
  "latest_payload st call_id k =
     (case latest_event (events_of st call_id) k of
        None \<Rightarrow> PNone
      | Some e \<Rightarrow> parse_payload (payload e))"

text \<open>A field of that payload, \<^verbatim>\<open>None\<close> when the payload is not a mapping or lacks the field.\<close>

definition latest_field :: "store \<Rightarrow> string \<Rightarrow> string \<Rightarrow> string \<Rightarrow> pyval" where
  "latest_field st call_id k f = dict_get (the_dict (latest_payload st call_id k)) f"

definition eligibility :: "store \<Rightarrow> string \<Rightarrow> pyval" where
  "eligibility st call_id = latest_field st call_id ''verify_mc_result'' ''eligible''"

text \<open>The record a call yields, when the builder returns one.\<close>

definition built :: "string \<Rightarrow> store \<Rightarrow> call_record option" where
  "built call_id st =
     (case fst (build_call_record call_id st) of Inr (Some r) \<Rightarrow> Some r | _ \<Rightarrow> None)"

section \<open>Properties of the grouping\<close>

lemma group_by_type_snoc: "group_by_type (evs @ [e]) = group_step (group_by_type evs) e"
  by (simp add: group_by_type_def)

lemma latest_event_snoc:
  "latest_event (evs @ [e]) k = (if event_key e = k then Some e else latest_event evs k)"
  by (simp add: latest_event_def)

text \<open>Grouping keeps, for each type, exactly the latest event of that type.\<close>

lemma group_by_type_latest:
  "k \<noteq> [] \<Longrightarrow>
   group_by_type evs k =
     map_option (\<lambda>e. \<lparr>entry_payload = parse_payload (payload e), entry_timestamp = timestamp e\<rparr>)
       (latest_event evs k)"
proof (induction evs rule: rev_induct)
  case Nil
  show ?case by (simp add: group_by_type_def latest_event_def)
next
  case (snoc e evs)
  then show ?case
    by (simp add: group_by_type_snoc latest_event_snoc group_step_def)
qed

lemma type_payload_latest:
  "k \<noteq> [] \<Longrightarrow> type_payload (group_by_type (events_of st cid)) k = latest_payload st cid k"
  by (simp add: type_payload_def latest_payload_def group_by_type_latest split: option.splits)

lemma the_dict_or_empty: "the_dict (py_or v (PDict [])) = the_dict v"
  by (cases v) (auto simp: py_or_def the_dict_def)

lemma truthy_or_empty: "truthy (py_or v (PDict [])) = truthy v"
  by (simp add: py_or_def)

lemma py_get_Inr: "py_get x k = Inr v \<Longrightarrow> v = dict_get (the_dict x) k \<and> (\<exists>d. x = PDict d)"
  by (cases x) (auto simp: py_get_def the_dict_def)

lemma bind_Inr: "bind m f = Inr y \<Longrightarrow> \<exists>x. m = Inr x \<and> f x = Inr y"
  by (cases m) (auto simp: bind_def)

section \<open>The builder reads and does not write\<close>

lemma get_events_by_call_id_store: "snd (get_events_by_call_id cid st) = st"
  by (simp add: get_events_by_call_id_def)

lemma get_carrier_profile_store: "snd (get_carrier_profile mc st) = st"
  by (simp add: get_carrier_profile_def split: sum.splits option.splits)

lemma get_call_search_prefs_store: "snd (get_call_search_prefs cid st) = st"
  by (simp add: get_call_search_prefs_def split: option.splits)

lemma backfill_name_store: "snd (backfill_name name mc st) = st"
  using get_carrier_profile_store [of mc st]
  by (cases "get_carrier_profile mc st") (auto simp: backfill_name_def split: sum.splits)

lemma resolve_prefs_store: "snd (resolve_prefs cid st) = st"
  using get_call_search_prefs_store [of cid st]
  by (cases "get_call_search_prefs cid st") (auto simp: resolve_prefs_def split: pyval.splits)

lemma backfill_name_storeD: "backfill_name name mc st = (r, st') \<Longrightarrow> st' = st"
  using backfill_name_store [of name mc st] by simp

lemma resolve_prefs_storeD: "resolve_prefs cid st = (r, st') \<Longrightarrow> st' = st"
  using resolve_prefs_store [of cid st] by simp

lemma build_call_record_store: "snd (build_call_record cid st) = st"
proof -
  obtain evs st1 where g: "get_events_by_call_id cid st = (evs, st1)" by fastforce
  with get_events_by_call_id_store [of cid st] have st1: "st1 = st" by simp
  show ?thesis
    unfolding build_call_record_def g st1
    by (auto simp: Let_def split: sum.splits prod.splits
        dest!: backfill_name_storeD resolve_prefs_storeD)
qed

section \<open>The steps behind a built record\<close>

text \<open>When the builder returns a record, every step has succeeded, and the record is made of their results.\<close>

lemma build_recordE:
  assumes "fst (build_call_record cid st) = Inr (Some r)"
  obtains d el mc nm cn neg lm0 ng lm acc sent tone reas prefs where
    "events_of st cid \<noteq> []"
    "resolve_duration (group_by_type (events_of st cid))
       (event_span (timestamp (hd (events_of st cid))) (timestamp (last (events_of st cid)))) = Inr d"
    "verify_fields (group_by_type (events_of st cid)) = Inr (el, mc, nm)"
    "fst (backfill_name nm mc st) = Inr cn"
    "resolve_load (group_by_type (events_of st cid)) = Inr (neg, lm0)"
    "resolve_negotiation neg lm0 = Inr (ng, lm, acc)"
    "resolve_sentiment (group_by_type (events_of st cid)) = Inr (sent, tone, reas)"
    "fst (resolve_prefs cid st) = Inr prefs"
    "r = \<lparr>rec_id = cid,
          rec_timestamp = timestamp (hd (events_of st cid)),
          mc_number = py_or mc (PStr em_dash),
          carrier_name = cn,
          fmcsa_verified = (el = PBool True),
          verification_status =
            (if el = PBool False then ''failed''
             else if el = PBool True then ''verified'' else ''pending''),
          load_matched = lm,
          negotiation = ng,
          outcome = decide_outcome (el = PBool True) el neg acc,
          sentiment = sent,
          sentiment_tone = tone,
          sentiment_reasoning = reas,
          call_duration_seconds = d,
          sales_rep_notes = PNone,
          call_search_prefs = prefs\<rparr>"
proof -
  let ?evs = "events_of st cid"
  let ?bt = "group_by_type ?evs"
  let ?span = "event_span (timestamp (hd ?evs)) (timestamp (last ?evs))"
  have g: "get_events_by_call_id cid st = (?evs, st)"
    using get_events_by_call_id_store [of cid st] by (simp add: events_of_def prod_eq_iff)
  note b = assms [unfolded build_call_record_def g, simplified]
  from b have ne: "?evs \<noteq> []"
    by (auto split: if_splits)
  from b ne obtain d where d: "resolve_duration ?bt ?span = Inr d"
    by (cases "resolve_duration ?bt ?span") (auto simp: Let_def)
  from b ne d obtain el mc nm where v: "verify_fields ?bt = Inr (el, mc, nm)"
    by (cases "verify_fields ?bt") (auto simp: Let_def)
  obtain rb sb where bf: "backfill_name nm mc st = (rb, sb)" by fastforce
  from backfill_name_storeD [OF bf] have sb: "sb = st" .
  from b ne d v bf obtain cn where cn: "rb = Inr cn"
    by (cases rb) (auto simp: Let_def)
  from b ne d v bf cn sb obtain neg lm0 where l: "resolve_load ?bt = Inr (neg, lm0)"
    by (cases "resolve_load ?bt") (auto simp: Let_def)
  from b ne d v bf cn sb l obtain ng lm acc where n: "resolve_negotiation neg lm0 = Inr (ng, lm, acc)"
    by (cases "resolve_negotiation neg lm0") (auto simp: Let_def)
  from b ne d v bf cn sb l n obtain sent tone reas where
    s: "resolve_sentiment ?bt = Inr (sent, tone, reas)"
    by (cases "resolve_sentiment ?bt") (auto simp: Let_def)
  obtain rp sp where rp: "resolve_prefs cid st = (rp, sp)" by fastforce
  from b ne d v bf cn sb l n s rp obtain prefs where p: "rp = Inr prefs"
    by (cases rp) (auto simp: Let_def)
  from b ne d v bf cn sb l n s rp p have r: "r = \<lparr>rec_id = cid,
          rec_timestamp = timestamp (hd ?evs),
          mc_number = py_or mc (PStr em_dash),
          carrier_name = cn,
          fmcsa_verified = (el = PBool True),
          verification_status =
            (if el = PBool False then ''failed''
             else if el = PBool True then ''verified'' else ''pending''),
          load_matched = lm,
          negotiation = ng,
          outcome = decide_outcome (el = PBool True) el neg acc,
          sentiment = sent,
          sentiment_tone = tone,
          sentiment_reasoning = reas,
          call_duration_seconds = d,
          sales_rep_notes = PNone,
          call_search_prefs = prefs\<rparr>"
    by (simp add: Let_def)
  from bf cn have "fst (backfill_name nm mc st) = Inr cn" by simp
  moreover from rp p have "fst (resolve_prefs cid st) = Inr prefs" by simp
  ultimately show thesis
    using that [OF ne d v _ l n s _ r] by blast
qed

text \<open>What the steps read from the payloads, in the words of the specification.\<close>

lemma verify_fields_eligible:
  assumes "verify_fields (group_by_type (events_of st cid)) = Inr (el, mc, nm)"
  shows "el = eligibility st cid"
proof -
  let ?v = "payload_or_empty (group_by_type (events_of st cid)) ''verify_mc_result''"
  from assms obtain c where "py_get ?v ''carrier'' = Inr c" and
    "bind (py_get ?v ''eligible'') (\<lambda>eligible.
       bind (py_get (py_or c (PDict [])) ''mc_number'') (\<lambda>m1.
       bind (py_get ?v ''mc_number'') (\<lambda>m2.
       bind (py_get (py_or c (PDict [])) ''name'') (\<lambda>n1.
       bind (py_get (py_or c (PDict [])) ''legal_name'') (\<lambda>n2.
         Inr (eligible, py_or m1 (py_or m2 (PStr [])), py_or n1 (py_or n2 (PStr [])))))))) = Inr (el, mc, nm)"
    unfolding verify_fields_def Let_def by (blast dest: bind_Inr)
  then obtain e where e: "py_get ?v ''eligible'' = Inr e" and
    "bind (py_get (py_or c (PDict [])) ''mc_number'') (\<lambda>m1.
       bind (py_get ?v ''mc_number'') (\<lambda>m2.
       bind (py_get (py_or c (PDict [])) ''name'') (\<lambda>n1.
       bind (py_get (py_or c (PDict [])) ''legal_name'') (\<lambda>n2.
         Inr (e, py_or m1 (py_or m2 (PStr [])), py_or n1 (py_or n2 (PStr []))))))) = Inr (el, mc, nm)"
    by (blast dest: bind_Inr)
  then have "el = e"
    by (auto dest!: bind_Inr)
  with py_get_Inr [OF e] show ?thesis
    by (simp add: eligibility_def latest_field_def payload_or_empty_def the_dict_or_empty
        type_payload_latest)
qed

lemma built_Some: "built cid st = Some r \<longleftrightarrow> fst (build_call_record cid st) = Inr (Some r)"
  by (auto simp: built_def split: sum.splits option.splits)

lemma built_the: "built cid st \<noteq> None \<Longrightarrow> fst (build_call_record cid st) = Inr (Some (the (built cid st)))"
  using built_Some [of cid st "the (built cid st)"] by auto

lemma resolve_load_neg:
  assumes "resolve_load bt = Inr (neg, lm0)"
  shows "neg = payload_or_empty bt ''negotiation_complete''"
    and "\<exists>d. neg = PDict d"
proof -
  let ?n = "payload_or_empty bt ''negotiation_complete''"
  from assms obtain l1 where l1: "py_get ?n ''load_id'' = Inr l1" and
    r1: "bind (py_get ?n ''origin'') (\<lambda>o1.
           let load_data = (if truthy (py_or l1 o1) then ?n else payload_or_empty bt ''best_load_retrieved'')
           in if \<not> truthy load_data then Inr (?n, PNone)
              else
                bind (py_get load_data ''load_id'') (\<lambda>l2.
                bind (py_get load_data ''origin'') (\<lambda>o2.
                  if truthy (py_or l2 o2)
                  then bind (load_snapshot (the_dict load_data)) (\<lambda>lm. Inr (?n, lm))
                  else Inr (?n, PNone)))) = Inr (neg, lm0)"
    unfolding resolve_load_def Let_def by (blast dest: bind_Inr)
  from py_get_Inr [OF l1] obtain d where d: "?n = PDict d" by blast
  from r1 have "neg = ?n"
    unfolding Let_def by (auto dest!: bind_Inr split: if_splits)
  with d show "neg = ?n" "\<exists>d. neg = PDict d" by auto
qed

lemma load_snapshot_truthy: "load_snapshot d = Inr lm \<Longrightarrow> truthy lm"
  unfolding load_snapshot_def by (auto dest!: bind_Inr)

lemma resolve_load_lm:
  assumes "resolve_load bt = Inr (neg, lm0)"
  shows "lm0 = PNone \<or> truthy lm0"
  using assms unfolding resolve_load_def Let_def
  by (auto dest!: bind_Inr load_snapshot_truthy split: if_splits)

lemma negotiation_dict_shape:
  assumes "negotiation_dict neg lm rounds = Inr ng"
  shows "\<exists>io cos fr.
           ng = (if truthy lm \<or> truthy neg
                 then PDict [(''rounds'', rounds), (''initial_offer'', io), (''counter_offers'', PList cos),
                             (''final_rate'', fr), (''agreed'', PBool (accepted_of neg))]
                 else PNone)"
proof -
  from assms obtain io cos fr where
    "ng = (if truthy lm \<or> truthy neg
           then PDict [(''rounds'', rounds), (''initial_offer'', io), (''counter_offers'', PList cos),
                       (''final_rate'', fr), (''agreed'', PBool (accepted_of neg))]
           else PNone)"
    unfolding negotiation_dict_def by (auto dest!: bind_Inr)
  then show ?thesis by blast
qed

lemma resolve_negotiationE:
  assumes "resolve_negotiation neg lm0 = Inr (ng, lm, acc)"
  obtains rounds io cos fr where
    "coerce_rounds (py_or (dict_get (the_dict neg) ''negotiation_rounds'') (PInt 0)) = Inr rounds"
    "acc = accepted_of neg"
    "ng = (if truthy lm0 \<or> truthy neg
           then PDict [(''rounds'', rounds), (''initial_offer'', io), (''counter_offers'', PList cos),
                       (''final_rate'', fr), (''agreed'', PBool acc)]
           else PNone)"
    "lm = backfill_rate lm0 ng"
proof -
  from assms obtain rounds where
    1: "coerce_rounds (py_or (dict_get (the_dict neg) ''negotiation_rounds'') (PInt 0)) = Inr rounds" and
    2: "bind (negotiation_dict neg lm0 rounds) (\<lambda>ng. Inr (ng, backfill_rate lm0 ng, accepted_of neg))
          = Inr (ng, lm, acc)"
    unfolding resolve_negotiation_def by (blast dest: bind_Inr)
  from 2 obtain ng' where 3: "negotiation_dict neg lm0 rounds = Inr ng'" and
    4: "Inr (ng', backfill_rate lm0 ng', accepted_of neg) = (Inr (ng, lm, acc) :: error + _)"
    by (blast dest: bind_Inr)
  from 4 have e: "ng' = ng" "lm = backfill_rate lm0 ng" "acc = accepted_of neg" by auto
  from negotiation_dict_shape [OF 3] e obtain io cos fr where
    "ng = (if truthy lm0 \<or> truthy neg
           then PDict [(''rounds'', rounds), (''initial_offer'', io), (''counter_offers'', PList cos),
                       (''final_rate'', fr), (''agreed'', PBool acc)]
           else PNone)" by auto
  from that [OF 1 e(3) this e(2)] show thesis .
qed

lemma truthy_backfill_rate: "truthy (backfill_rate lm ng) = truthy lm"
  by (auto simp: backfill_rate_def Let_def the_dict_def split: pyval.splits list.splits)

lemma backfill_rate_None: "backfill_rate lm ng = PNone \<longleftrightarrow> lm = PNone"
  by (auto simp: backfill_rate_def Let_def)

section \<open>Outcome and negotiation, in the words of the specification\<close>

text \<open>The decision table of the specification (section 4.3, step 8), evaluated in order.\<close>

definition outcome_table :: "pyval \<Rightarrow> bool \<Rightarrow> bool \<Rightarrow> string" where
  "outcome_table elig has_negotiation agreed =
     (if elig = PBool False then ''failed_verification''
      else if \<not> has_negotiation then ''dropped''
      else if agreed then ''booked''
      else ''no_deal'')"

text \<open>There is a negotiation event at all.\<close>

definition has_negotiation_event :: "store \<Rightarrow> string \<Rightarrow> bool" where
  "has_negotiation_event st call_id \<longleftrightarrow>
     latest_event (events_of st call_id) ''negotiation_complete'' \<noteq> None"

text \<open>\<^verbatim>\<open>negotiation.agreed\<close> and \<^verbatim>\<open>negotiation.rounds\<close> of a record.\<close>

definition record_agreed :: "call_record \<Rightarrow> bool" where
  "record_agreed r \<longleftrightarrow> dict_get (the_dict (negotiation r)) ''agreed'' = PBool True"


text \<open>The \<^verbatim>\<open>accepted\<close> field of the latest negotiation payload.\<close>

definition accepted_value :: "store \<Rightarrow> string \<Rightarrow> pyval" where
  "accepted_value st call_id = latest_field st call_id ''negotiation_complete'' ''accepted''"

lemma py_in_true_literals:
  "py_in x [PBool True, PStr ''true'', PStr ''True''] \<longleftrightarrow>
     x \<in> {PBool True, PInt 1, PFloat (Finite 1), PStr ''true'', PStr ''True''}"
  by (cases x) (auto simp: py_in_def py_eq_def py_num_def)

text \<open>The parts of a built record that come from the negotiation payload.\<close>

lemma build_negotiation:
  assumes "fst (build_call_record cid st) = Inr (Some r)"
  obtains neg lm0 rounds io cos fr where
    "truthy neg = truthy (latest_payload st cid ''negotiation_complete'')"
    "the_dict neg = the_dict (latest_payload st cid ''negotiation_complete'')"
    "coerce_rounds (py_or (dict_get (the_dict neg) ''negotiation_rounds'') (PInt 0)) = Inr rounds"
    "outcome r =
       decide_outcome (eligibility st cid = PBool True) (eligibility st cid) neg (accepted_of neg)"
    "negotiation r =
       (if truthy lm0 \<or> truthy neg
        then PDict [(''rounds'', rounds), (''initial_offer'', io), (''counter_offers'', PList cos),
                    (''final_rate'', fr), (''agreed'', PBool (accepted_of neg))]
        else PNone)"
    "truthy lm0 \<longleftrightarrow> load_matched r \<noteq> PNone"
proof -
  let ?bt = "group_by_type (events_of st cid)"
  from assms obtain el mc nm neg lm0 ng lm acc where
    v: "verify_fields ?bt = Inr (el, mc, nm)" and
    l: "resolve_load ?bt = Inr (neg, lm0)" and
    n: "resolve_negotiation neg lm0 = Inr (ng, lm, acc)" and
    o: "outcome r = decide_outcome (el = PBool True) el neg acc" and
    g: "negotiation r = ng" and
    m: "load_matched r = lm"
    by (auto elim!: build_recordE)
  from verify_fields_eligible [OF v] have el: "el = eligibility st cid" .
  from resolve_load_neg(1) [OF l] have neg: "neg = payload_or_empty ?bt ''negotiation_complete''" .
  then have t: "truthy neg = truthy (latest_payload st cid ''negotiation_complete'')"
    and d: "the_dict neg = the_dict (latest_payload st cid ''negotiation_complete'')"
    by (simp_all add: payload_or_empty_def truthy_or_empty the_dict_or_empty type_payload_latest)
  from n obtain rounds io cos fr where
    r: "coerce_rounds (py_or (dict_get (the_dict neg) ''negotiation_rounds'') (PInt 0)) = Inr rounds" and
    a: "acc = accepted_of neg" and
    s: "ng = (if truthy lm0 \<or> truthy neg
           then PDict [(''rounds'', rounds), (''initial_offer'', io), (''counter_offers'', PList cos),
                       (''final_rate'', fr), (''agreed'', PBool acc)]
           else PNone)" and
    b: "lm = backfill_rate lm0 ng"
    by (rule resolve_negotiationE)
  from o el a have o': "outcome r =
      decide_outcome (eligibility st cid = PBool True) (eligibility st cid) neg (accepted_of neg)"
    by simp
  from g s a have n': "negotiation r =
       (if truthy lm0 \<or> truthy neg
        then PDict [(''rounds'', rounds), (''initial_offer'', io), (''counter_offers'', PList cos),
                    (''final_rate'', fr), (''agreed'', PBool (accepted_of neg))]
        else PNone)"
    by simp
  from resolve_load_lm [OF l] m b have m': "truthy lm0 \<longleftrightarrow> load_matched r \<noteq> PNone"
    by (auto simp: backfill_rate_None)
  from that [OF t d r o' n' m'] show thesis .
qed

lemma accepted_of_latest:
  "the_dict neg = the_dict (latest_payload st cid ''negotiation_complete'') \<Longrightarrow>
   accepted_of neg \<longleftrightarrow>
     accepted_value st cid \<in> {PBool True, PInt 1, PFloat (Finite 1), PStr ''true'', PStr ''True''}"
  by (simp add: accepted_of_def accepted_value_def latest_field_def py_in_true_literals)

lemma the_dict_falsy: "\<not> truthy v \<Longrightarrow> the_dict v = []"
  by (cases v) (auto simp: the_dict_def)

section \<open>The sentiment policy, in the words of the specification\<close>

text \<open>
  The synonym table of the specification (section 4.2, step 2); the specification names some
  of its entries, the source has them all.
\<close>

definition synonym_table :: "(string \<times> string) list" where
  "synonym_table =
     [(''positive'', ''positive''),
      (''professional & satisfied'', ''positive''),
      (''friendly & cooperative'', ''positive''),
      (''really positive'', ''positive''),
      (''very positive'', ''positive''),
      (''neutral'', ''neutral''),
      (''negative'', ''negative''),
      (''unprofessional'', ''negative''),
      (''really negative'', ''negative''),
      (''very negative'', ''negative''),
      (''frustrated'', ''frustrated''),
      (''impatient'', ''frustrated''),
      (''dismissive'', ''frustrated''),
      (''angry'', ''frustrated'')]"

text \<open>Step 3, the substring fallback, and step 4, the default.\<close>

definition substring_fallback :: "string \<Rightarrow> string" where
  "substring_fallback t =
     (if contains ''positive'' t then ''positive''
      else if contains ''negative'' t then ''negative''
      else if contains ''frustrat'' t \<or> contains ''angry'' t \<or> contains ''impatient'' t
        then ''frustrated''
      else ''neutral'')"

text \<open>The policy on a text label.\<close>

definition classify :: "string \<Rightarrow> string" where
  "classify label =
     (if label = [] then ''neutral''
      else case map_of synonym_table (lower (strip label)) of
             Some category \<Rightarrow> category
           | None \<Rightarrow> substring_fallback (lower (strip label)))"

definition categories :: "string list" where
  "categories = [''positive'', ''neutral'', ''negative'', ''frustrated'']"

lemma substring_fallback_category: "substring_fallback t \<in> set categories"
  by (simp add: substring_fallback_def categories_def)

lemma synonym_table_category: "map_of synonym_table t = Some c \<Longrightarrow> c \<in> set categories"
  by (auto simp: synonym_table_def categories_def split: if_splits)

lemma classify_category: "classify s \<in> set categories"
  using substring_fallback_category synonym_table_category
  by (auto simp: classify_def categories_def split: option.splits)

lemma normalize_sentiment_text: "normalize_sentiment (PStr s) = Inr (classify s)"
proof (cases "s = []")
  case True
  then show ?thesis by (simp add: normalize_sentiment_def classify_def)
next
  case False
  let ?t = "lower (strip s)"
  show ?thesis
  proof (cases "map_of synonym_table ?t")
    case None
    then have "?t \<notin> fst ` set synonym_table"
      by (simp add: map_of_eq_None_iff)
    then have "?t \<notin> set [''positive'', ''professional & satisfied'', ''friendly & cooperative'',
                            ''really positive'', ''very positive'']"
      "?t \<notin> set [''neutral'']"
      "?t \<notin> set [''negative'', ''unprofessional'', ''really negative'', ''very negative'']"
      "?t \<notin> set [''frustrated'', ''impatient'', ''dismissive'', ''angry'']"
      by (simp_all add: synonym_table_def)
    with False None show ?thesis
      unfolding normalize_sentiment_def classify_def substring_fallback_def Let_def
      by (simp del: set_simps)
  next
    case (Some c)
    then have "(?t, c) \<in> set synonym_table" by (rule map_of_SomeD)
    then consider
        "?t \<in> set [''positive'', ''professional & satisfied'', ''friendly & cooperative'',
                     ''really positive'', ''very positive'']" "c = ''positive''"
      | "?t \<in> set [''neutral'']" "c = ''neutral''"
      | "?t \<in> set [''negative'', ''unprofessional'', ''really negative'', ''very negative'']"
        "c = ''negative''"
      | "?t \<in> set [''frustrated'', ''impatient'', ''dismissive'', ''angry'']" "c = ''frustrated''"
      by (auto simp: synonym_table_def)
    then show ?thesis
    proof cases
      case 1
      with False Some show ?thesis
        unfolding normalize_sentiment_def classify_def Let_def by (simp del: set_simps)
    next
      case 2
      with False Some show ?thesis
        unfolding normalize_sentiment_def classify_def Let_def by auto
    next
      case 3
      with False Some show ?thesis
        unfolding normalize_sentiment_def classify_def Let_def by auto
    next
      case 4
      with False Some show ?thesis
        unfolding normalize_sentiment_def classify_def Let_def by auto
    qed
  qed
qed

lemma json_loads_Nil: "json_loads [] = None"
  by (simp add: json_loads_def skip_ws_def)

lemma parse_payload_loads: "json_loads s = Some v \<Longrightarrow> parse_payload (Some s) = v"
  by (cases "s = []") (simp_all add: parse_payload_def json_loads_Nil)

section \<open>The duration, in the words of the specification\<close>

text \<open>The timestamps of the first and of the last stored event of a call.\<close>

definition first_timestamp :: "store \<Rightarrow> string \<Rightarrow> string" where
  "first_timestamp st call_id = timestamp (hd (events_of st call_id))"

definition last_timestamp :: "store \<Rightarrow> string \<Rightarrow> string" where
  "last_timestamp st call_id = timestamp (last (events_of st call_id))"








lemma event_span_mixed:
  "parse_ts f = Some (w1, a) \<Longrightarrow> parse_ts l = Some (w2, b) \<Longrightarrow> (a = None) \<noteq> (b = None) \<Longrightarrow>
   event_span f l = 0"
  by (auto simp: event_span_def seconds_between_def split: option.splits)


section \<open>Deleting superseded events\<close>

text \<open>
  An event row is superseded when the table holds a row of the same call and the same event
  type with a greater id. Deleting the superseded rows leaves, of every call and event type,
  the rows with the greatest id.
\<close>

definition superseded :: "event_row list \<Rightarrow> event_row \<Rightarrow> bool" where
  "superseded rows r \<longleftrightarrow>
     list_ex (\<lambda>r'. row_call_id r' = row_call_id r \<and> row_event_type r' = row_event_type r
                   \<and> row_id r < row_id r') rows"

definition delete_superseded :: "store \<Rightarrow> store" where
  "delete_superseded st =
     st\<lparr>events_tbl := filter (\<lambda>r. \<not> superseded (events_tbl st) r) (events_tbl st)\<rparr>"

text \<open>Two results of the builder agree on everything but the timestamp and the duration.\<close>

definition same_apart_from_times ::
  "error + call_record option \<Rightarrow> error + call_record option \<Rightarrow> bool" where
  "same_apart_from_times a b =
     (case (a, b) of
        (Inl e, Inl e') \<Rightarrow> e = e'
      | (Inr None, Inr None) \<Rightarrow> True
      | (Inr (Some r), Inr (Some r')) \<Rightarrow>
          r\<lparr>rec_timestamp := rec_timestamp r', call_duration_seconds := call_duration_seconds r'\<rparr> = r'
      | _ \<Rightarrow> False)"

text \<open>The key under which the builder groups a row: its type, trimmed and unquoted.\<close>

definition row_key :: "event_row \<Rightarrow> string" where
  "row_key r = strip_quotes (strip (row_event_type r))"

definition as_event :: "event_row \<Rightarrow> event" where
  "as_event r =
     \<lparr>event_type = row_event_type r, payload = row_payload r, timestamp = row_timestamp r\<rparr>"

definition call_rows :: "store \<Rightarrow> string \<Rightarrow> event_row list" where
  "call_rows st cid = sort_key row_id (filter (\<lambda>r. row_call_id r = cid) (events_tbl st))"

lemma events_of_rows: "events_of st cid = map as_event (call_rows st cid)"
  by (simp add: events_of_def get_events_by_call_id_def call_rows_def as_event_def)

lemma event_key_as_event: "event_key (as_event r) = row_key r"
  by (simp add: event_key_def row_key_def as_event_def)

lemma call_rows_sorted: "sorted (map row_id (call_rows st cid))"
  by (simp add: call_rows_def)

lemma call_rows_set:
  "set (call_rows st cid) = {r \<in> set (events_tbl st). row_call_id r = cid}"
  by (auto simp: call_rows_def)

lemma call_rows_delete:
  "call_rows (delete_superseded st) cid
     = filter (\<lambda>r. \<not> (\<exists>r' \<in> set (call_rows st cid).
                          row_event_type r' = row_event_type r \<and> row_id r < row_id r'))
         (call_rows st cid)"
proof -
  have "call_rows (delete_superseded st) cid
      = filter (\<lambda>r. \<not> superseded (events_tbl st) r) (call_rows st cid)"
    by (simp add: call_rows_def delete_superseded_def filter_sort conj_commute)
  also have "\<dots> = filter (\<lambda>r. \<not> (\<exists>r' \<in> set (call_rows st cid).
                          row_event_type r' = row_event_type r \<and> row_id r < row_id r'))
         (call_rows st cid)"
    by (rule filter_cong) (auto simp: superseded_def list_ex_iff call_rows_set)
  finally show ?thesis .
qed

text \<open>The last element of a sorted list is a greatest one, and a filter that keeps it keeps it last.\<close>

lemma sorted_last_greatest:
  fixes f :: "'a \<Rightarrow> 'b :: linorder"
  shows "sorted (map f zs) \<Longrightarrow> y \<in> set zs \<Longrightarrow> f y \<le> f (last zs)"
  by (cases zs rule: rev_cases) (auto simp: sorted_append)

lemma last_filter_kept:
  "zs \<noteq> [] \<Longrightarrow> P (last zs) \<Longrightarrow> filter P zs \<noteq> [] \<and> last (filter P zs) = last zs"
  by (cases zs rule: rev_cases) auto

lemma filter_swap: "filter K (filter P xs) = filter P (filter K xs)"
  by (induction xs) auto

lemma newest_of_key_kept:
  fixes f :: "'a \<Rightarrow> 'b :: linorder"
  assumes s: "sorted (map f xs)" and t: "\<And>x y. t x = t y \<Longrightarrow> k x = k y"
    and ne: "filter (\<lambda>x. k x = c) xs \<noteq> []"
  shows "filter (\<lambda>x. \<not> (\<exists>y \<in> set xs. t y = t x \<and> f x < f y)) (filter (\<lambda>x. k x = c) xs) \<noteq> []"
    and "last (filter (\<lambda>x. \<not> (\<exists>y \<in> set xs. t y = t x \<and> f x < f y)) (filter (\<lambda>x. k x = c) xs))
           = last (filter (\<lambda>x. k x = c) xs)"
proof -
  let ?zs = "filter (\<lambda>x. k x = c) xs"
  let ?P = "\<lambda>x. \<not> (\<exists>y \<in> set xs. t y = t x \<and> f x < f y)"
  from s have sz: "sorted (map f ?zs)" by (simp add: sorted_filter)
  from ne have l: "last ?zs \<in> set ?zs" by (rule last_in_set)
  have "?P (last ?zs)"
  proof
    assume "\<exists>y \<in> set xs. t y = t (last ?zs) \<and> f (last ?zs) < f y"
    then obtain y where y: "y \<in> set xs" "t y = t (last ?zs)" "f (last ?zs) < f y" by blast
    from t [OF y(2)] l have "k y = c" by simp
    with y(1) have "y \<in> set ?zs" by simp
    from sorted_last_greatest [OF sz this] y(3) show False by simp
  qed
  with ne have r: "filter ?P ?zs \<noteq> [] \<and> last (filter ?P ?zs) = last ?zs"
    by (rule last_filter_kept)
  from r show "filter ?P ?zs \<noteq> []" by (rule conjunct1)
  from r show "last (filter ?P ?zs) = last ?zs" by (rule conjunct2)
qed

lemma group_by_type_empty_key: "group_by_type evs [] = None"
  by (induction evs rule: rev_induct) (simp_all add: group_by_type_def group_step_def)

lemma latest_event_rows:
  "latest_event (map as_event rows) k =
     (if filter (\<lambda>r. row_key r = k) rows = [] then None
      else Some (as_event (last (filter (\<lambda>r. row_key r = k) rows))))"
  by (simp add: latest_event_def filter_map o_def event_key_as_event last_map)

text \<open>Deleting the superseded rows leaves the grouping, the last row and emptiness as they were.\<close>

lemma delete_superseded_grouping:
  "group_by_type (events_of (delete_superseded st) cid) = group_by_type (events_of st cid)"
proof
  fix k
  let ?rows = "call_rows st cid"
  let ?keep = "\<lambda>r. \<not> (\<exists>r' \<in> set ?rows. row_event_type r' = row_event_type r \<and> row_id r < row_id r')"
  have same: "\<And>x y. row_event_type x = row_event_type y \<Longrightarrow> row_key x = row_key y"
    by (simp add: row_key_def)
  show "group_by_type (events_of (delete_superseded st) cid) k = group_by_type (events_of st cid) k"
  proof (cases "k = []")
    case True
    then show ?thesis by (simp add: group_by_type_empty_key)
  next
    case False
    let ?K = "\<lambda>r. row_key r = k"
    have eq: "filter ?K (filter ?keep ?rows) = filter ?keep (filter ?K ?rows)"
      by (rule filter_swap)
    have "latest_event (map as_event (filter ?keep ?rows)) k = latest_event (map as_event ?rows) k"
    proof (cases "filter ?K ?rows = []")
      case True
      then have "filter ?keep (filter ?K ?rows) = []" by (simp only: filter.simps)
      with True show ?thesis by (simp only: latest_event_rows eq if_True)
    next
      case ne: False
      note n = newest_of_key_kept [where f = row_id and xs = ?rows and t = row_event_type
          and k = row_key and c = k, OF call_rows_sorted same ne]
      from ne n show ?thesis by (simp only: latest_event_rows eq if_False)
    qed
    with False show ?thesis
      by (simp add: group_by_type_latest events_of_rows call_rows_delete)
  qed
qed

lemma delete_superseded_last:
  assumes "events_of st cid \<noteq> []"
  shows "events_of (delete_superseded st) cid \<noteq> []
       \<and> last (events_of (delete_superseded st) cid) = last (events_of st cid)"
proof -
  let ?rows = "call_rows st cid"
  let ?keep = "\<lambda>r. \<not> (\<exists>r' \<in> set ?rows. row_event_type r' = row_event_type r \<and> row_id r < row_id r')"
  from assms obtain ys x where rows: "?rows = ys @ [x]"
    by (cases ?rows rule: rev_cases) (auto simp: events_of_rows)
  from call_rows_sorted [of st cid] rows have "\<forall>y \<in> set ?rows. row_id y \<le> row_id x"
    by (auto simp: sorted_append)
  then have "?keep x" by (auto simp: not_less)
  with rows have "filter ?keep ?rows = filter ?keep ys @ [x]"
    by simp
  with rows show ?thesis
    by (simp add: events_of_rows call_rows_delete)
qed

lemma delete_superseded_empty:
  "events_of st cid = [] \<Longrightarrow> events_of (delete_superseded st) cid = []"
  by (simp add: events_of_rows call_rows_delete)

lemma backfill_name_tables:
  "carrier_profiles_tbl st' = carrier_profiles_tbl st \<Longrightarrow>
   fst (backfill_name nm mc st') = fst (backfill_name nm mc st)"
  by (auto simp: backfill_name_def get_carrier_profile_def split: sum.splits option.splits)

lemma resolve_prefs_tables:
  "call_search_prefs_tbl st' = call_search_prefs_tbl st \<Longrightarrow>
   fst (resolve_prefs cid st') = fst (resolve_prefs cid st)"
  by (auto simp: resolve_prefs_def get_call_search_prefs_def split: option.splits pyval.splits)

text \<open>The result of the builder as one expression over what it reads.\<close>

definition assemble ::
  "string \<Rightarrow> string \<Rightarrow> int \<Rightarrow> (string \<rightharpoonup> entry) \<Rightarrow> (pyval \<Rightarrow> pyval \<Rightarrow> error + pyval) \<Rightarrow> error + pyval
     \<Rightarrow> error + call_record option" where
  "assemble cid first_ts d bt backfill prefs_result =
     bind (verify_fields bt) (\<lambda>(el, mc, nm).
     bind (backfill nm mc) (\<lambda>cn.
     bind (resolve_load bt) (\<lambda>(neg, lm0).
     bind (resolve_negotiation neg lm0) (\<lambda>(ng, lm, acc).
     bind (resolve_sentiment bt) (\<lambda>(sent, tone, reas).
     bind prefs_result (\<lambda>prefs.
       Inr (Some
         \<lparr>rec_id = cid,
          rec_timestamp = first_ts,
          mc_number = py_or mc (PStr em_dash),
          carrier_name = cn,
          fmcsa_verified = (el = PBool True),
          verification_status =
            (if el = PBool False then ''failed''
             else if el = PBool True then ''verified'' else ''pending''),
          load_matched = lm,
          negotiation = ng,
          outcome = decide_outcome (el = PBool True) el neg acc,
          sentiment = sent,
          sentiment_tone = tone,
          sentiment_reasoning = reas,
          call_duration_seconds = d,
          sales_rep_notes = PNone,
          call_search_prefs = prefs\<rparr>)))))))"

lemma build_assemble:
  "fst (build_call_record cid st) =
     (if events_of st cid = [] then Inr None
      else bind (resolve_duration (group_by_type (events_of st cid))
                   (event_span (first_timestamp st cid) (last_timestamp st cid)))
             (\<lambda>d. assemble cid (first_timestamp st cid) d (group_by_type (events_of st cid))
                     (\<lambda>nm mc. fst (backfill_name nm mc st)) (fst (resolve_prefs cid st))))"
proof (cases "events_of st cid = []")
  case True
  have "get_events_by_call_id cid st = (events_of st cid, st)"
    using get_events_by_call_id_store [of cid st] by (simp add: events_of_def prod_eq_iff)
  with True show ?thesis
    by (simp add: build_call_record_def)
next
  case ne: False
  let ?bt = "group_by_type (events_of st cid)"
  let ?sp = "event_span (timestamp (hd (events_of st cid))) (timestamp (last (events_of st cid)))"
  have g: "get_events_by_call_id cid st = (events_of st cid, st)"
    using get_events_by_call_id_store [of cid st] by (simp add: events_of_def prod_eq_iff)
  note defs = build_call_record_def g first_timestamp_def last_timestamp_def assemble_def
    Let_def bind_def
  show ?thesis
  proof (cases "resolve_duration ?bt ?sp")
    case Inl
    with ne show ?thesis by (simp add: defs)
  next
    case d: (Inr d)
    show ?thesis
    proof (cases "verify_fields ?bt")
      case Inl
      with ne d show ?thesis by (simp add: defs)
    next
      case (Inr v)
      then obtain el mc nm where v: "verify_fields ?bt = Inr (el, mc, nm)" by (cases v) auto
      have bf: "backfill_name nm mc st = (fst (backfill_name nm mc st), st)"
        using backfill_name_store [of nm mc st] by (simp add: prod_eq_iff)
      show ?thesis
      proof (cases "fst (backfill_name nm mc st)")
        case Inl
        with ne d v bf show ?thesis
          by (simp add: defs split: prod.splits sum.splits)
      next
        case cn: (Inr cn)
        show ?thesis
        proof (cases "resolve_load ?bt")
          case Inl
          with ne d v bf cn show ?thesis
            by (simp add: defs split: prod.splits sum.splits)
        next
          case (Inr l)
          then obtain neg lm0 where l: "resolve_load ?bt = Inr (neg, lm0)" by (cases l) auto
          show ?thesis
          proof (cases "resolve_negotiation neg lm0")
            case Inl
            with ne d v bf cn l show ?thesis
              by (simp add: defs split: prod.splits sum.splits)
          next
            case (Inr n)
            then obtain ng lm acc where n: "resolve_negotiation neg lm0 = Inr (ng, lm, acc)"
              by (cases n) auto
            show ?thesis
            proof (cases "resolve_sentiment ?bt")
              case Inl
              with ne d v bf cn l n show ?thesis
                by (simp add: defs split: prod.splits sum.splits)
            next
              case (Inr s)
              then obtain sent tone reas where s: "resolve_sentiment ?bt = Inr (sent, tone, reas)"
                by (cases s) auto
              have rp: "resolve_prefs cid st = (fst (resolve_prefs cid st), st)"
                using resolve_prefs_store [of cid st] by (simp add: prod_eq_iff)
              show ?thesis
              proof (cases "fst (resolve_prefs cid st)")
                case Inl
                with ne d v bf cn l n s rp show ?thesis
                  by (simp add: defs split: prod.splits sum.splits)
              next
                case (Inr prefs)
                with ne d v bf cn l n s rp show ?thesis
                  by (simp add: defs split: prod.splits sum.splits)
              qed
            qed
          qed
        qed
      qed
    qed
  qed
qed

lemma resolve_duration_raises:
  "resolve_duration bt s = Inl e \<Longrightarrow> resolve_duration bt s' = Inl e"
  by (auto simp: resolve_duration_def bind_def split: sum.splits if_splits)

lemma resolve_duration_returns:
  "resolve_duration bt s = Inr d \<Longrightarrow> \<exists>d'. resolve_duration bt s' = Inr d'"
  using resolve_duration_raises [of bt s' _ s] by (cases "resolve_duration bt s'") auto

lemma assemble_same:
  "same_apart_from_times (assemble cid t d bt bf pr) (assemble cid t' d' bt bf pr)"
  unfolding assemble_def same_apart_from_times_def
  by (auto simp: bind_def split: sum.splits prod.splits)

section \<open>Example stores\<close>

text \<open>A stored event with a payload, for the concrete stores the theorems are tried on.\<close>

definition stored :: "int \<Rightarrow> string \<Rightarrow> string \<Rightarrow> string \<Rightarrow> string \<Rightarrow> event_row" where
  "stored i c t p ts =
     \<lparr>row_id = i, row_call_id = c, row_event_type = t, row_payload = Some p, row_timestamp = ts\<rparr>"

definition events_only :: "event_row list \<Rightarrow> store" where
  "events_only rows = \<lparr>events_tbl = rows, carrier_profiles_tbl = [], call_search_prefs_tbl = []\<rparr>"

text \<open>A verified carrier, a load, an accepted negotiation and a classification with a reported duration.\<close>

definition booked_call :: store where
  \<open>booked_call = events_only
     [stored 1 ''c1'' ''verify_mc_result''
        ''{"eligible": true, "mc_number": "123", "carrier": {"name": "ACME"}}''
        ''2024-05-01T10:00:00.000000Z'',
      stored 2 ''c1'' ''best_load_retrieved''
        ''{"load_id": "L1", "origin": "LA", "destination": "NY"}''
        ''2024-05-01T10:00:30.500000Z'',
      stored 3 ''c1'' ''negotiation_complete''
        ''{"accepted": true, "final_price": 1500}''
        ''2024-05-01T10:01:30.250000Z'',
      stored 4 ''c1'' ''call_classified''
        ''{"sentiment": "Really Positive", "call_duration_seconds": 90}''
        ''2024-05-01T10:02:00Z'']\<close>

text \<open>A call whose only event is a negotiation with an empty payload.\<close>

definition empty_negotiation_call :: store where
  \<open>empty_negotiation_call = events_only
     [stored 1 ''c1'' ''negotiation_complete'' ''{}'' ''2024-05-01T10:00:00.000000Z'']\<close>


text \<open>A negotiation that reports acceptance as the number 1.\<close>

definition accepted_one_call :: store where
  \<open>accepted_one_call = events_only
     [stored 1 ''c1'' ''negotiation_complete'' ''{"accepted": 1}'' ''2024-05-01T10:00:00.000000Z'']\<close>

text \<open>A negotiation that reports acceptance as the string \<^verbatim>\<open>yes\<close>.\<close>

definition accepted_yes_call :: store where
  \<open>accepted_yes_call = events_only
     [stored 1 ''c1'' ''negotiation_complete'' ''{"accepted": "yes"}'' ''2024-05-01T10:00:00.000000Z'']\<close>

text \<open>
  The JSON text of the string \<^verbatim>\<open>{"a":1}\<close>, that is, the mapping encoded twice:
  a quote, the text with its quotes escaped, a quote.
\<close>

definition double_encoded_a1 :: string where
  \<open>double_encoded_a1 =
     [CHR 0x22] @ ''{'' @ [CHR 0x5C, CHR 0x22] @ ''a'' @ [CHR 0x5C, CHR 0x22] @ '':1}'' @ [CHR 0x22]\<close>

text \<open>The same for \<^verbatim>\<open>{"eligible": true}\<close>, as \<^verbatim>\<open>/call_output\<close> stores a payload sent as a string.\<close>

definition double_encoded_eligible :: string where
  \<open>double_encoded_eligible =
     [CHR 0x22] @ ''{'' @ [CHR 0x5C, CHR 0x22] @ ''eligible'' @ [CHR 0x5C, CHR 0x22] @ '': true}''
       @ [CHR 0x22]\<close>

definition double_encoded_verify_call :: store where
  \<open>double_encoded_verify_call = events_only
     [stored 1 ''c1'' ''verify_mc_result'' double_encoded_eligible ''2024-05-01T10:00:00.000000Z'']\<close>

definition native_verify_call :: store where
  \<open>native_verify_call = events_only
     [stored 1 ''c1'' ''verify_mc_result'' ''{"eligible": true}'' ''2024-05-01T10:00:00.000000Z'']\<close>

text \<open>The same double encoding under \<open>sentiment_classified\<close>, which the builder does normalize.\<close>

definition double_encoded_sentiment :: string where
  \<open>double_encoded_sentiment =
     [CHR 0x22] @ ''{'' @ [CHR 0x5C, CHR 0x22] @ ''sentiment'' @ [CHR 0x5C, CHR 0x22] @ '': ''
       @ [CHR 0x5C, CHR 0x22] @ ''angry'' @ [CHR 0x5C, CHR 0x22] @ ''}'' @ [CHR 0x22]\<close>

definition double_encoded_sentiment_call :: store where
  \<open>double_encoded_sentiment_call = events_only
     [stored 1 ''c1'' ''sentiment_classified'' double_encoded_sentiment ''2024-05-01T10:00:00.000000Z'']\<close>

text \<open>
  A verification stored twice, the first time as not eligible; the first of the two is the first
  event of the call.
\<close>

definition repeated_verify_call :: store where
  \<open>repeated_verify_call = events_only
     [stored 1 ''c1'' ''verify_mc_result''
        ''{"eligible": false, "mc_number": "123"}''
        ''2024-05-01T10:00:00.000000Z'',
      stored 2 ''c1'' ''verify_mc_result''
        ''{"eligible": true, "mc_number": "123", "carrier": {"name": "ACME"}}''
        ''2024-05-01T10:00:40.000000Z'',
      stored 3 ''c1'' ''call_classified''
        ''{"sentiment": "positive"}''
        ''2024-05-01T10:01:00.000000Z'']\<close>

text \<open>
  A verification stored twice after a load; the later row carries the earlier timestamp.
\<close>

definition corrected_verify_call :: store where
  \<open>corrected_verify_call = events_only
     [stored 1 ''c1'' ''best_load_retrieved''
        ''{"load_id": "L1", "origin": "LA", "destination": "NY"}''
        ''2024-05-01T10:00:00.000000Z'',
      stored 2 ''c1'' ''verify_mc_result''
        ''{"eligible": false, "mc_number": "123"}''
        ''2024-05-01T10:00:50.000000Z'',
      stored 3 ''c1'' ''verify_mc_result''
        ''{"eligible": true, "mc_number": "123", "carrier": {"name": "ACME"}}''
        ''2024-05-01T10:00:20.000000Z'',
      stored 4 ''c1'' ''call_classified''
        ''{"sentiment": "positive"}''
        ''2024-05-01T10:01:00.000000Z'']\<close>

section \<open>The claims\<close>

text \<open>
  Claim C2. For every call record built from at least one event, \<open>verification_status\<close> is
  \<open>failed\<close> if and only if the eligibility value of the latest \<open>verify_mc_result\<close> payload is
  the boolean false, \<open>verified\<close> if and only if it is the boolean true, and \<open>pending\<close> in every
  other case (absent, not a boolean, or a payload that does not decode to a mapping); and
  \<open>fmcsa_verified\<close> is true if and only if the eligibility is the boolean true.
\<close>

theorem verification_status_follows_eligibility:
  assumes "fst (build_call_record cid st) = Inr (Some r)"
  shows "(verification_status r = ''failed'' \<longleftrightarrow> eligibility st cid = PBool False)
       \<and> (verification_status r = ''verified'' \<longleftrightarrow> eligibility st cid = PBool True)
       \<and> (verification_status r = ''pending'' \<longleftrightarrow>
            eligibility st cid \<noteq> PBool False \<and> eligibility st cid \<noteq> PBool True)
       \<and> (fmcsa_verified r \<longleftrightarrow> eligibility st cid = PBool True)"
proof -
  from assms obtain el mc nm where
    v: "verify_fields (group_by_type (events_of st cid)) = Inr (el, mc, nm)" and
    s: "verification_status r =
          (if el = PBool False then ''failed''
           else if el = PBool True then ''verified'' else ''pending'')" and
    f: "fmcsa_verified r = (el = PBool True)"
    by (auto elim!: build_recordE)
  from verify_fields_eligible [OF v] have "el = eligibility st cid" .
  with s f show ?thesis by simp
qed

theorem verification_status_follows_eligibility_witness:
  "built ''c1'' booked_call \<noteq> None
   \<and> eligibility booked_call ''c1'' = PBool True
   \<and> verification_status (the (built ''c1'' booked_call)) = ''verified''
   \<and> fmcsa_verified (the (built ''c1'' booked_call))"
proof -
  have b: "built ''c1'' booked_call \<noteq> None" by code_simp
  have e: "eligibility booked_call ''c1'' = PBool True" by code_simp
  from verification_status_follows_eligibility [OF built_the [OF b]] b e
  show ?thesis by simp
qed

text \<open>
  Claim C1, as stated: the outcome follows the decision table with "there is no negotiation
  event at all" as its second condition. It fails for a call whose only event is a
  \<open>negotiation_complete\<close> with the payload \<^verbatim>\<open>{}\<close>: a negotiation event exists and is not
  accepted, so the table says \<open>no_deal\<close>, and the builder says \<open>dropped\<close>.
\<close>

theorem outcome_table_by_event_counterexample:
  "built ''c1'' empty_negotiation_call \<noteq> None
   \<and> has_negotiation_event empty_negotiation_call ''c1''
   \<and> outcome (the (built ''c1'' empty_negotiation_call)) = ''dropped''
   \<and> outcome_table (eligibility empty_negotiation_call ''c1'')
        (has_negotiation_event empty_negotiation_call ''c1'')
        (record_agreed (the (built ''c1'' empty_negotiation_call))) = ''no_deal''"
  by code_simp

text \<open>
  Claim C1, amended. For every call with a built record, the outcome is the decision table
  evaluated in order, with the second condition read on the payload: \<open>failed_verification\<close>
  if the eligibility of the latest \<open>verify_mc_result\<close> payload is the boolean false;
  otherwise \<open>dropped\<close> if the latest \<open>negotiation_complete\<close> payload is absent or empty (no
  such event, a payload that does not decode, or one that decodes to an empty or false
  value); otherwise \<open>booked\<close> if \<open>negotiation.agreed\<close>; otherwise \<open>no_deal\<close>. The outcome
  depends only on the eligibility, on whether that payload is non-empty, and on
  \<open>negotiation.agreed\<close>.
\<close>

theorem outcome_table_by_payload:
  assumes "fst (build_call_record cid st) = Inr (Some r)"
  shows "outcome r =
           outcome_table (eligibility st cid)
             (truthy (latest_payload st cid ''negotiation_complete''))
             (record_agreed r)"
proof -
  from assms obtain neg lm0 rounds io cos fr where
    t: "truthy neg = truthy (latest_payload st cid ''negotiation_complete'')" and
    o: "outcome r =
          decide_outcome (eligibility st cid = PBool True) (eligibility st cid) neg (accepted_of neg)" and
    n: "negotiation r =
          (if truthy lm0 \<or> truthy neg
           then PDict [(''rounds'', rounds), (''initial_offer'', io), (''counter_offers'', PList cos),
                       (''final_rate'', fr), (''agreed'', PBool (accepted_of neg))]
           else PNone)"
    by (rule build_negotiation)
  from n have "truthy neg \<Longrightarrow> record_agreed r = accepted_of neg"
    by (simp add: record_agreed_def the_dict_def dict_get_def)
  with o t show ?thesis
    by (auto simp: decide_outcome_def outcome_table_def)
qed

theorem outcome_table_by_payload_witness:
  "built ''c1'' booked_call \<noteq> None
   \<and> outcome (the (built ''c1'' booked_call)) = ''booked''
   \<and> outcome_table (eligibility booked_call ''c1'')
        (truthy (latest_payload booked_call ''c1'' ''negotiation_complete''))
        (record_agreed (the (built ''c1'' booked_call))) = ''booked''"
proof -
  have b: "built ''c1'' booked_call \<noteq> None" by code_simp
  have o: "outcome (the (built ''c1'' booked_call)) = ''booked''" by code_simp
  from outcome_table_by_payload [OF built_the [OF b]] b o show ?thesis by simp
qed



text \<open>
  Claim C6, as stated: any value of \<open>accepted\<close> other than the boolean true and the strings
  \<^verbatim>\<open>"true"\<close> and \<^verbatim>\<open>"True"\<close>, the number 1 included, is not-accepted. The source tests
  \<^verbatim>\<open>neg.get("accepted") in (True, "true", "True")\<close>, and Python finds \<^verbatim>\<open>1 == True\<close>: a payload
  with \<^verbatim>\<open>"accepted": 1\<close> yields \<open>agreed = true\<close>.
\<close>

theorem accepted_number_one_counterexample:
  "built ''c1'' accepted_one_call \<noteq> None
   \<and> accepted_value accepted_one_call ''c1'' = PInt 1
   \<and> record_agreed (the (built ''c1'' accepted_one_call))"
  by code_simp

text \<open>
  Claim C6, amended. In every built record \<open>negotiation.agreed\<close> is true exactly when the
  \<open>accepted\<close> field of the latest \<open>negotiation_complete\<close> payload is the boolean true, a number
  equal to one (the integer 1 or the float 1.0), or one of the strings \<^verbatim>\<open>"true"\<close> and
  \<^verbatim>\<open>"True"\<close>; any other value, absence and the string \<^verbatim>\<open>"yes"\<close> included, is not-accepted.
\<close>

theorem agreed_iff_true_literal:
  assumes "fst (build_call_record cid st) = Inr (Some r)"
  shows "record_agreed r \<longleftrightarrow>
           accepted_value st cid \<in> {PBool True, PInt 1, PFloat (Finite 1), PStr ''true'', PStr ''True''}"
proof -
  from assms obtain neg lm0 rounds io cos fr where
    d: "the_dict neg = the_dict (latest_payload st cid ''negotiation_complete'')" and
    n: "negotiation r =
          (if truthy lm0 \<or> truthy neg
           then PDict [(''rounds'', rounds), (''initial_offer'', io), (''counter_offers'', PList cos),
                       (''final_rate'', fr), (''agreed'', PBool (accepted_of neg))]
           else PNone)"
    by (rule build_negotiation)
  have "record_agreed r = accepted_of neg"
  proof (cases "truthy lm0 \<or> truthy neg")
    case True
    with n show ?thesis
      by (simp add: record_agreed_def the_dict_def dict_get_def)
  next
    case False
    then have "the_dict neg = []" by (simp add: the_dict_falsy)
    then have "\<not> accepted_of neg"
      by (simp add: accepted_of_def dict_get_def py_in_true_literals)
    with False n show ?thesis
      by (simp add: record_agreed_def the_dict_def dict_get_def)
  qed
  with accepted_of_latest [OF d] show ?thesis by simp
qed

theorem agreed_iff_true_literal_witness:
  "built ''c1'' accepted_yes_call \<noteq> None
   \<and> accepted_value accepted_yes_call ''c1'' = PStr ''yes''
   \<and> \<not> record_agreed (the (built ''c1'' accepted_yes_call))"
proof -
  have b: "built ''c1'' accepted_yes_call \<noteq> None" by code_simp
  have a: "accepted_value accepted_yes_call ''c1'' = PStr ''yes''" by code_simp
  from agreed_iff_true_literal [OF built_the [OF b]] b a show ?thesis by simp
qed

text \<open>
  Claim C3. The payload normalizer returns a mapping for every input and never raises (its
  result type has no error): a mapping is returned as it is; a string is JSON-decoded, the
  result returned if it is a mapping and normalized in turn if it is a string; \<^verbatim>\<open>None\<close>, a
  string that does not decode, a string that decodes to anything else, and every other type
  give the empty mapping. The recursion is bounded: each recursive call is on a string
  strictly shorter than the one before (the source keeps no depth counter; the length of the
  text is the bound). \<^verbatim>\<open>normalize('{"a":1}')\<close> and the double-encoded
  \<^verbatim>\<open>normalize('"{\"a\":1}"')\<close> give \<^verbatim>\<open>{a:1}\<close>; \<^verbatim>\<open>normalize(None)\<close> and
  \<^verbatim>\<open>normalize("not json")\<close> give \<^verbatim>\<open>{}\<close>.
\<close>

theorem payload_normalizer_total:
  \<open>payload_as_dict (PDict d) = d
   \<and> payload_as_dict PNone = []
   \<and> (json_loads s = Some (PDict d) \<longrightarrow> payload_as_dict (PStr s) = d)
   \<and> (json_loads s = Some (PStr s') \<longrightarrow>
        payload_as_dict (PStr s) = payload_as_dict (PStr s') \<and> length s' < length s)
   \<and> (json_loads s = None \<longrightarrow> payload_as_dict (PStr s) = [])
   \<and> (json_loads s = Some v \<and> (\<forall>d. v \<noteq> PDict d) \<and> (\<forall>t. v \<noteq> PStr t) \<longrightarrow>
        payload_as_dict (PStr s) = [])
   \<and> payload_as_dict (PBool b) = [] \<and> payload_as_dict (PInt n) = []
   \<and> payload_as_dict (PFloat f) = [] \<and> payload_as_dict (PList xs) = []
   \<and> payload_as_dict (PStr ''{"a":1}'') = [(''a'', PInt 1)]
   \<and> payload_as_dict (PStr double_encoded_a1) = [(''a'', PInt 1)]
   \<and> payload_as_dict (PStr ''not json'') = []\<close>
proof -
  have 0: "payload_as_dict (PDict d) = d" "payload_as_dict PNone = []"
    "payload_as_dict (PBool b) = []" "payload_as_dict (PInt n) = []"
    "payload_as_dict (PFloat f) = []" "payload_as_dict (PList xs) = []"
    by simp_all
  have 1: "payload_as_dict (PStr s) = d" if "json_loads s = Some (PDict d)" for s d
    using parse_payload_loads [OF that] by simp
  have 2: "payload_as_dict (PStr s) = payload_as_dict (PStr s') \<and> length s' < length s"
    if "json_loads s = Some (PStr s')" for s s'
    using parse_payload_loads [OF that] json_loads_size [OF that] by simp
  have 3: "payload_as_dict (PStr s) = []" if "json_loads s = None" for s
    using that by (simp add: parse_payload_def)
  have 4: "payload_as_dict (PStr s) = []"
    if "json_loads s = Some v \<and> (\<forall>d. v \<noteq> PDict d) \<and> (\<forall>t. v \<noteq> PStr t)" for s v
    using that parse_payload_loads [of s v] by (cases v) auto
  have 5: \<open>payload_as_dict (PStr ''{"a":1}'') = [(''a'', PInt 1)]\<close> by code_simp
  have 6: "payload_as_dict (PStr double_encoded_a1) = [(''a'', PInt 1)]" by code_simp
  have 7: "payload_as_dict (PStr ''not json'') = []" by code_simp
  from 0 1 [of s d] 2 [of s s'] 3 [of s] 4 [of s v] 5 6 7 show ?thesis by blast
qed

theorem payload_normalizer_total_witness:
  \<open>json_loads double_encoded_a1 = Some (PStr ''{"a":1}'')
   \<and> json_loads ''{"a":1}'' = Some (PDict [(''a'', PInt 1)])
   \<and> json_loads ''not json'' = None
   \<and> json_loads ''[1]'' = Some (PList [PInt 1])
   \<and> payload_as_dict (PStr double_encoded_a1) = payload_as_dict (PStr ''{"a":1}'')
   \<and> length ''{"a":1}'' < length double_encoded_a1
   \<and> payload_as_dict (PStr ''{"a":1}'') = [(''a'', PInt 1)]
   \<and> payload_as_dict (PStr ''[1]'') = []\<close>
proof -
  have a: \<open>json_loads double_encoded_a1 = Some (PStr ''{"a":1}'')\<close> by code_simp
  have b: \<open>json_loads ''{"a":1}'' = Some (PDict [(''a'', PInt 1)])\<close> by code_simp
  have c: "json_loads ''not json'' = None" by code_simp
  have d: "json_loads ''[1]'' = Some (PList [PInt 1])" by code_simp
  from payload_normalizer_total [of "[(''a'', PInt 1)]" double_encoded_a1 \<open>''{"a":1}''\<close>] a
  have 1: \<open>payload_as_dict (PStr double_encoded_a1) = payload_as_dict (PStr ''{"a":1}'')
            \<and> length ''{"a":1}'' < length double_encoded_a1\<close> by blast
  from payload_normalizer_total [of "[(''a'', PInt 1)]" \<open>''{"a":1}''\<close>] b
  have 2: \<open>payload_as_dict (PStr ''{"a":1}'') = [(''a'', PInt 1)]\<close> by blast
  from payload_normalizer_total [of _ "''[1]''" _ "PList [PInt 1]"] d
  have 3: "payload_as_dict (PStr ''[1]'') = []" by blast
  from a b c d 1 2 3 show ?thesis by blast
qed

text \<open>
  Claim C5. The claim: every retained event, of any of the five types, has its payload
  normalized, so a payload stored as a doubly JSON-encoded string is decoded to the same
  mapping as one stored natively before its fields are read. The builder normalizes only
  the \<open>sentiment_classified\<close> and \<open>call_classified\<close> payloads (main.py, lines 514 to 516, under
  the comment "Normalize so we always have dicts"), and reads the others, and
  \<open>call_classified\<close> itself at line 455, as \<^verbatim>\<open>_parse_payload\<close> left them. A
  \<open>verify_mc_result\<close> payload stored doubly encoded makes the builder raise where the
  native payload gives a verified record; the normalizer would have decoded it.
\<close>

theorem double_encoded_verify_payload_raises:
  "fst (build_call_record ''c1'' double_encoded_verify_call) = Inl AttributeError
   \<and> payload_as_dict (latest_payload double_encoded_verify_call ''c1'' ''verify_mc_result'')
       = [(''eligible'', PBool True)]
   \<and> payload_as_dict (latest_payload native_verify_call ''c1'' ''verify_mc_result'')
       = [(''eligible'', PBool True)]
   \<and> map_option verification_status (built ''c1'' native_verify_call) = Some ''verified''
   \<and> map_option sentiment (built ''c1'' double_encoded_sentiment_call) = Some ''frustrated''"
  by code_simp

text \<open>
  Claim C8, as stated: the classifier is total on any raw label. The label is whatever the
  payload holds under its sentiment key; for a non-empty value that is not text, the number
  5 say, \<^verbatim>\<open>(raw or "").strip()\<close> raises \<^verbatim>\<open>AttributeError\<close> and no category comes out.
\<close>

theorem sentiment_of_number_counterexample:
  "normalize_sentiment (PInt 5) = Inl AttributeError"
  by (simp add: normalize_sentiment_def)

text \<open>
  Claim C8, amended. The sentiment classifier is a deterministic, pure function, total on text
  labels and on empty or absent input, into \<open>positive\<close>, \<open>neutral\<close>, \<open>negative\<close>, \<open>frustrated\<close>,
  applying in order: empty or absent input (any false value) gives \<open>neutral\<close>; the lower-cased,
  trimmed label is looked up in the synonym table; otherwise the substring fallback gives
  \<open>positive\<close> for a label containing "positive", \<open>negative\<close> for "negative", \<open>frustrated\<close> for
  any of "frustrat", "angry", "impatient"; otherwise \<open>neutral\<close>. So
  \<^verbatim>\<open>classify("Really Positive")\<close> is \<open>positive\<close>, \<^verbatim>\<open>classify("")\<close> is \<open>neutral\<close>,
  \<^verbatim>\<open>classify("impatient")\<close> is \<open>frustrated\<close>, \<^verbatim>\<open>classify("mildly negative vibe")\<close> is \<open>negative\<close>.
\<close>

theorem sentiment_classifier_on_text:
  "normalize_sentiment (PStr s) = Inr (classify s)
   \<and> classify s \<in> set categories
   \<and> (\<not> truthy v \<longrightarrow> normalize_sentiment v = Inr ''neutral'')
   \<and> map_of synonym_table ''professional & satisfied'' = Some ''positive''
   \<and> map_of synonym_table ''friendly & cooperative'' = Some ''positive''
   \<and> map_of synonym_table ''unprofessional'' = Some ''negative''
   \<and> map_of synonym_table ''impatient'' = Some ''frustrated''
   \<and> map_of synonym_table ''dismissive'' = Some ''frustrated''
   \<and> map_of synonym_table ''angry'' = Some ''frustrated''
   \<and> normalize_sentiment (PStr ''Really Positive'') = Inr ''positive''
   \<and> normalize_sentiment (PStr []) = Inr ''neutral''
   \<and> normalize_sentiment (PStr ''impatient'') = Inr ''frustrated''
   \<and> normalize_sentiment (PStr ''mildly negative vibe'') = Inr ''negative''"
proof -
  have 1: "normalize_sentiment v = Inr ''neutral''" if "\<not> truthy v" for v
    using that by (simp add: normalize_sentiment_def)
  have 2: "map_of synonym_table ''professional & satisfied'' = Some ''positive''"
    "map_of synonym_table ''friendly & cooperative'' = Some ''positive''"
    "map_of synonym_table ''unprofessional'' = Some ''negative''"
    "map_of synonym_table ''impatient'' = Some ''frustrated''"
    "map_of synonym_table ''dismissive'' = Some ''frustrated''"
    "map_of synonym_table ''angry'' = Some ''frustrated''"
    by code_simp+
  have 3: "normalize_sentiment (PStr ''Really Positive'') = Inr ''positive''"
    "normalize_sentiment (PStr []) = Inr ''neutral''"
    "normalize_sentiment (PStr ''impatient'') = Inr ''frustrated''"
    "normalize_sentiment (PStr ''mildly negative vibe'') = Inr ''negative''"
    by code_simp+
  from normalize_sentiment_text [of s] classify_category [of s] 1 2 3 show ?thesis by simp
qed

theorem sentiment_classifier_on_text_witness:
  "\<not> truthy PNone \<and> normalize_sentiment PNone = Inr ''neutral''
   \<and> \<not> truthy (PDict []) \<and> normalize_sentiment (PDict []) = Inr ''neutral''
   \<and> normalize_sentiment (PStr ''so angry'') = Inr ''frustrated''"
proof -
  have c: "classify ''so angry'' = ''frustrated''" by code_simp
  from sentiment_classifier_on_text [of "''so angry''" PNone]
    sentiment_classifier_on_text [of "''so angry''" "PDict []"] c
  show ?thesis by simp
qed

text \<open>
  Claim C9. The call record builder is deterministic and idempotent: it leaves the event
  store, the carrier-profile store and the preferences store as they were, whether it
  returns a record, nothing, or raises; so a second invocation on the store the first one
  left yields the identical result.
\<close>

theorem build_reads_only_and_repeats:
  "snd (build_call_record cid st) = st
   \<and> build_call_record cid (snd (build_call_record cid st)) = build_call_record cid st"
  by (simp add: build_call_record_store)



text \<open>
  Claim C4, as stated: the record built from all the events of a call equals the record built
  after deleting every event that a later one of the same type supersedes. It fails for a call
  whose first event is a \<open>verify_mc_result\<close> that a second one supersedes: the record takes
  its \<open>timestamp\<close> from the first stored event and its duration from the span between the
  first and the last, whatever their types, so deleting the first event moves both.
\<close>

theorem delete_superseded_changes_times_counterexample:
  "built ''c1'' repeated_verify_call \<noteq> None
   \<and> built ''c1'' (delete_superseded repeated_verify_call) \<noteq> None
   \<and> rec_timestamp (the (built ''c1'' repeated_verify_call)) = ''2024-05-01T10:00:00.000000Z''
   \<and> rec_timestamp (the (built ''c1'' (delete_superseded repeated_verify_call)))
       = ''2024-05-01T10:00:40.000000Z''
   \<and> call_duration_seconds (the (built ''c1'' repeated_verify_call)) = 60
   \<and> call_duration_seconds (the (built ''c1'' (delete_superseded repeated_verify_call))) = 20
   \<and> fst (build_call_record ''c1'' repeated_verify_call)
       \<noteq> fst (build_call_record ''c1'' (delete_superseded repeated_verify_call))"
  by code_simp

text \<open>
  Claim C4, amended. Of the events that share a call id and an event type, the builder uses
  only the payload of the one with the greatest store-assigned id, whatever the timestamps:
  the result built after deleting every event that has a later one of its call and type
  agrees with the result built from all events on every field except \<open>timestamp\<close> and
  \<open>call_duration_seconds\<close> (and raises the same error, or is absent, when the other is). The
  two results are equal whenever the deletion leaves the timestamp of the first event of the
  call unchanged.
\<close>

theorem latest_id_of_each_type_wins:
  "same_apart_from_times (fst (build_call_record cid st))
      (fst (build_call_record cid (delete_superseded st)))
   \<and> (first_timestamp (delete_superseded st) cid = first_timestamp st cid \<longrightarrow>
        fst (build_call_record cid (delete_superseded st)) = fst (build_call_record cid st))"
proof (cases "events_of st cid = []")
  case True
  with delete_superseded_empty [OF True] show ?thesis
    by (simp add: build_assemble same_apart_from_times_def)
next
  case ne: False
  let ?st = "delete_superseded st"
  let ?bt = "group_by_type (events_of st cid)"
  let ?bf = "\<lambda>nm mc. fst (backfill_name nm mc st)"
  let ?pr = "fst (resolve_prefs cid st)"
  from delete_superseded_last [OF ne]
  have ne': "events_of ?st cid \<noteq> []" and l: "last_timestamp ?st cid = last_timestamp st cid"
    by (simp_all add: last_timestamp_def)
  have bt: "group_by_type (events_of ?st cid) = ?bt"
    by (rule delete_superseded_grouping)
  have bf: "(\<lambda>nm mc. fst (backfill_name nm mc ?st)) = ?bf"
    by (intro ext backfill_name_tables) (simp add: delete_superseded_def)
  have pr: "fst (resolve_prefs cid ?st) = ?pr"
    by (rule resolve_prefs_tables) (simp add: delete_superseded_def)
  let ?sp = "event_span (first_timestamp st cid) (last_timestamp st cid)"
  let ?sp' = "event_span (first_timestamp ?st cid) (last_timestamp st cid)"
  have a: "fst (build_call_record cid st) =
      bind (resolve_duration ?bt ?sp) (\<lambda>d. assemble cid (first_timestamp st cid) d ?bt ?bf ?pr)"
    using ne by (simp add: build_assemble)
  have b: "fst (build_call_record cid ?st) =
      bind (resolve_duration ?bt ?sp') (\<lambda>d. assemble cid (first_timestamp ?st cid) d ?bt ?bf ?pr)"
    using ne' by (simp only: build_assemble [of cid ?st] bt bf pr l if_False)
  have same: "same_apart_from_times (fst (build_call_record cid st)) (fst (build_call_record cid ?st))"
  proof (cases "resolve_duration ?bt ?sp")
    case (Inl e)
    from resolve_duration_raises [OF Inl, of ?sp'] Inl show ?thesis
      by (simp add: a b bind_def same_apart_from_times_def)
  next
    case (Inr d)
    from resolve_duration_returns [OF Inr, of ?sp'] obtain d' where
      d': "resolve_duration ?bt ?sp' = Inr d'" by blast
    from assemble_same [of cid "first_timestamp st cid" d ?bt ?bf ?pr "first_timestamp ?st cid" d']
    show ?thesis by (simp add: a b Inr d' bind_def)
  qed
  have "first_timestamp ?st cid = first_timestamp st cid \<Longrightarrow>
        fst (build_call_record cid ?st) = fst (build_call_record cid st)"
    by (simp add: a b)
  with same show ?thesis by blast
qed

theorem latest_id_of_each_type_wins_witness:
  "first_timestamp (delete_superseded corrected_verify_call) ''c1''
     = first_timestamp corrected_verify_call ''c1''
   \<and> fst (build_call_record ''c1'' (delete_superseded corrected_verify_call))
       = fst (build_call_record ''c1'' corrected_verify_call)
   \<and> built ''c1'' corrected_verify_call \<noteq> None
   \<and> verification_status (the (built ''c1'' corrected_verify_call)) = ''verified''
   \<and> length (events_tbl (delete_superseded corrected_verify_call)) = 3"
proof -
  have f: "first_timestamp (delete_superseded corrected_verify_call) ''c1''
     = first_timestamp corrected_verify_call ''c1''" by code_simp
  have b: "built ''c1'' corrected_verify_call \<noteq> None" by code_simp
  have v: "verification_status (the (built ''c1'' corrected_verify_call)) = ''verified''"
    by code_simp
  have n: "length (events_tbl (delete_superseded corrected_verify_call)) = 3" by code_simp
  from latest_id_of_each_type_wins [of "''c1''" corrected_verify_call] f b v n
  show ?thesis by simp
qed

end
